theory Spec2Isabelle
  imports Main "HOL-Library.Sublist"
begin

section \<open>JavaScript strings and the RegExp subset used by the action\<close>

text \<open>
  A JavaScript string is a sequence of UTF-16 code units. A code unit is modelled as a
  natural number, so every string the program can see is a value of \<open>jsstring\<close>.
  \<open>utf16\<close> turns an ASCII literal of the source into its code units.
\<close>

type_synonym code_unit = nat
type_synonym jsstring = "code_unit list"

definition utf16 :: "string \<Rightarrow> jsstring" where
  "utf16 s = map of_char s"

text \<open>
  The patterns of \<open>src/index.ts\<close> use literal characters, character classes, sequence,
  alternation, a greedy star (and plus) and a capturing group. They use no anchor, no
  look-around and no back-reference, so a match attempt at an index depends only on the
  suffix of the input that starts there.
\<close>

datatype regex =
    Eps
  | Chr code_unit
  | Cls "code_unit \<Rightarrow> bool"
  | Seq regex regex
  | Alt regex regex
  | Star regex
  | Grp regex

text \<open>
  Canonicalize of the RegExp semantics, without the \<open>u\<close> flag: with \<open>ignoreCase\<close> a code
  unit is compared through its upper-case form. The model maps the ASCII letters only: a
  code unit of 128 or more never canonicalizes to an ASCII code unit, and every pattern
  character of the program is ASCII, so the comparison with a pattern character is exact.
\<close>

definition Canonicalize :: "bool \<Rightarrow> code_unit \<Rightarrow> code_unit" where
  "Canonicalize ignoreCase ch = (if ignoreCase \<and> 97 \<le> ch \<and> ch \<le> 122 then ch - 32 else ch)"

text \<open>
  A matcher state is the remaining input and the captures made so far. \<open>matcher\<close> returns
  every way the pattern matches a prefix of the input, in the order in which the
  backtracking matcher of the language tries them: the head of the list is the match
  that \<open>exec\<close> reports. An iteration of a star that consumes nothing is rejected, as in
  the language.
\<close>

type_synonym mstate = "jsstring \<times> jsstring list"

function matcher :: "bool \<Rightarrow> regex \<Rightarrow> mstate \<Rightarrow> mstate list" where
  "matcher ic Eps st = [st]"
| "matcher ic (Chr c) (s, caps) =
     (case s of [] \<Rightarrow> []
      | x # xs \<Rightarrow> if Canonicalize ic x = Canonicalize ic c then [(xs, caps)] else [])"
| "matcher ic (Cls P) (s, caps) =
     (case s of [] \<Rightarrow> [] | x # xs \<Rightarrow> if P x then [(xs, caps)] else [])"
| "matcher ic (Seq r1 r2) st = concat (map (matcher ic r2) (matcher ic r1 st))"
| "matcher ic (Alt r1 r2) st = matcher ic r1 st @ matcher ic r2 st"
| "matcher ic (Star r) (s, caps) =
     concat (map (matcher ic (Star r))
       (filter (\<lambda>st'. length (fst st') < length s) (matcher ic r (s, caps))))
     @ [(s, caps)]"
| "matcher ic (Grp r) (s, caps) =
     map (\<lambda>(s', caps'). (s', caps' @ [take (length s - length s') s])) (matcher ic r (s, caps))"
  by pat_completeness auto
termination
  by (relation "measures [\<lambda>(ic, r, st). size r, \<lambda>(ic, r, st). length (fst st)]") auto

definition Plus :: "regex \<Rightarrow> regex" where
  "Plus r = Seq r (Star r)"

definition Lit :: "string \<Rightarrow> regex" where
  "Lit s = foldr (\<lambda>c r. Seq (Chr (of_char c)) r) s Eps"

text \<open>\<open>RegExp.prototype.test\<close> of a pattern without the \<open>g\<close> flag: is there a match at some index.\<close>

fun test :: "bool \<Rightarrow> regex \<Rightarrow> jsstring \<Rightarrow> bool" where
  "test ic r [] = (matcher ic r ([], []) \<noteq> [])"
| "test ic r (x # xs) = (matcher ic r (x # xs, []) \<noteq> [] \<or> test ic r xs)"

text \<open>
  \<open>String.prototype.replace\<close> with a \<open>g\<close> pattern and the replacement \<open>""\<close>: the leftmost
  match is removed and the search goes on behind it; where nothing (or only the empty
  string) matches, the code unit is kept and the search moves one index on.
\<close>

fun replace_all :: "bool \<Rightarrow> regex \<Rightarrow> jsstring \<Rightarrow> jsstring" where
  "replace_all ic r [] = []"
| "replace_all ic r (x # xs) =
     (case matcher ic r (x # xs, []) of
        [] \<Rightarrow> x # replace_all ic r xs
      | (rest, caps) # _ \<Rightarrow>
          if length rest < length (x # xs) then replace_all ic r rest
          else x # replace_all ic r xs)"

text \<open>
  The loop \<open>while ((match = regex.exec(text)) !== null) { ... }\<close> over a \<open>g\<close> pattern: the
  captures of every match, from left to right; \<open>lastIndex\<close> moves to the end of each
  match. After an empty match \<open>lastIndex\<close> would not move and the loop would not end:
  that outcome is \<open>None\<close>.
\<close>

fun exec_loop :: "bool \<Rightarrow> regex \<Rightarrow> jsstring \<Rightarrow> jsstring list list option" where
  "exec_loop ic r [] = (case matcher ic r ([], []) of [] \<Rightarrow> Some [] | _ \<Rightarrow> None)"
| "exec_loop ic r (x # xs) =
     (case matcher ic r (x # xs, []) of
        [] \<Rightarrow> exec_loop ic r xs
      | (rest, caps) # _ \<Rightarrow>
          if length rest < length (x # xs) then map_option ((#) caps) (exec_loop ic r rest)
          else None)"

text \<open>White space and line terminators of the language: the class \<open>\s\<close>, and what \<open>trim\<close> removes.\<close>

definition isWhiteSpace :: "code_unit \<Rightarrow> bool" where
  "isWhiteSpace c = (c \<in> {9, 10, 11, 12, 13, 32, 160, 5760, 8232, 8233, 8239, 8287, 12288, 65279}
     \<or> (8192 \<le> c \<and> c \<le> 8202))"

definition trim :: "jsstring \<Rightarrow> jsstring" where
  "trim s = rev (dropWhile isWhiteSpace (rev (dropWhile isWhiteSpace s)))"

text \<open>\<open>toLowerCase\<close> on ASCII text; the program applies it to a capture of ASCII letters only.\<close>

definition toLowerCase :: "jsstring \<Rightarrow> jsstring" where
  "toLowerCase s = map (\<lambda>c. if 65 \<le> c \<and> c \<le> 90 then c + 32 else c) s"

fun join :: "jsstring list \<Rightarrow> jsstring \<Rightarrow> jsstring" where
  "join [] sep = []"
| "join [x] sep = x"
| "join (x # y # ys) sep = x @ sep @ join (y # ys) sep"

section \<open>Result classifier\<close>

definition ANSI_ESCAPE :: code_unit where
  "ANSI_ESCAPE = 27"

definition digit_or_semicolon :: "code_unit \<Rightarrow> bool" where
  "digit_or_semicolon c = ((48 \<le> c \<and> c \<le> 57) \<or> c = 59)"

definition ANSI_ESCAPE_REGEX :: regex where
  "ANSI_ESCAPE_REGEX = Seq (Chr ANSI_ESCAPE) (Seq (Lit ''['') (Seq (Star (Cls digit_or_semicolon)) (Lit ''m'')))"

definition stripAnsi :: "jsstring \<Rightarrow> jsstring" where
  "stripAnsi input = replace_all False ANSI_ESCAPE_REGEX input"

definition SEMVER_REGEX :: regex where
  "SEMVER_REGEX = Seq (Lit ''semver requires new '')
     (Seq (Grp (Alt (Lit ''major'') (Alt (Lit ''minor'') (Lit ''patch'')))) (Lit '' version''))"

definition SUCCESS_REGEX :: regex where
  "SUCCESS_REGEX = Seq (Lit ''no'') (Seq (Plus (Cls isWhiteSpace))
     (Grp (Alt (Lit ''semver'') (Alt (Lit ''public'') (Lit ''api'')))))"


text \<open>
  A thrown value: an \<open>Error\<close> object with its message and, where the thrower sets them, a
  numeric \<open>status\<close> (the platform client) and a \<open>code\<close> (the runtime's system errors); or a
  value that is not an object, with the text \<open>String(error)\<close> gives for it.
\<close>

datatype thrown =
    ErrorObject jsstring "nat option" "jsstring option"
  | NonObject jsstring

definition Error :: "jsstring \<Rightarrow> thrown" where
  "Error msg = ErrorObject msg None None"

fun message_of :: "thrown \<Rightarrow> jsstring" where
  "message_of (ErrorObject msg st cd) = msg"
| "message_of (NonObject rendering) = rendering"

text \<open>
  What the run leaves behind, in order: the lines given to the logging sink, the delays
  waited, the failure and the output published. \<open>ext\<close> is the state of the external
  collaborators (platform, file system, network).
\<close>

datatype event =
    Info jsstring
  | Warning jsstring
  | Debug jsstring
  | Sleep nat
  | SetFailed jsstring
  | SetOutput jsstring jsstring

record 'x world =
  trace :: "event list"
  ext :: 'x

type_synonym ('x, 'a) io = "'x world \<Rightarrow> (thrown + 'a) \<times> 'x world"

definition emit :: "event \<Rightarrow> 'x world \<Rightarrow> 'x world" where
  "emit e w = w\<lparr>trace := trace w @ [e]\<rparr>"

datatype SemverType = major | minor | patch

fun SemverType_string :: "SemverType \<Rightarrow> jsstring" where
  "SemverType_string major = utf16 ''major''"
| "SemverType_string minor = utf16 ''minor''"
| "SemverType_string patch = utf16 ''patch''"

record CommandResult =
  status :: "int option"
  stdout :: jsstring
  stderr :: jsstring
  error :: "thrown option"

text \<open>\<open>Set.prototype.add\<close> on a set of strings, kept in insertion order.\<close>

definition Set_add :: "jsstring \<Rightarrow> jsstring list \<Rightarrow> jsstring list" where
  "Set_add x found = (if x \<in> set found then found else found @ [x])"

text \<open>
  \<open>found.add(match[1].toLowerCase())\<close> for each match of the loop; \<open>match[1]\<close> of a match
  without a first group is \<open>undefined\<close>, and the method call on it throws.
\<close>

fun add_matches :: "jsstring list list \<Rightarrow> jsstring list \<Rightarrow> thrown + jsstring list" where
  "add_matches [] found = Inr found"
| "add_matches (caps # ms) found =
     (case caps of
        [] \<Rightarrow> Inl (Error (utf16 ''Cannot read properties of undefined (reading 'toLowerCase')''))
      | g # _ \<Rightarrow> add_matches ms (Set_add (toLowerCase g) found))"

definition extractRequiredUpdatesFromText :: "jsstring \<Rightarrow> thrown + jsstring list" where
  "extractRequiredUpdatesFromText text =
     (let cleaned = stripAnsi text
      in add_matches (the (exec_loop True SEMVER_REGEX cleaned)) [])"

definition combined_output :: "CommandResult \<Rightarrow> jsstring" where
  "combined_output result = trim (stripAnsi (stdout result @ utf16 ''\<newline>'' @ stderr result))"

definition determineSemverType :: "CommandResult \<Rightarrow> ('x, SemverType) io" where
  "determineSemverType result w =
     (let combined = combined_output result
      in case extractRequiredUpdatesFromText combined of
           Inl e \<Rightarrow> (Inl e, w)
         | Inr requiredUpdates \<Rightarrow>
             let hasUpdates = (length requiredUpdates > 0);
                 successMessage = test True SUCCESS_REGEX combined
             in if status result \<noteq> Some 0 \<and> \<not> hasUpdates \<and> \<not> successMessage
                then (Inl (Error (utf16 ''cargo semver-checks failed to produce parseable output:\<newline>'' @ combined)), w)
                else
                  let joined = join requiredUpdates (utf16 '', '');
                      w' = emit (Info (utf16 ''Detected required updates: ''
                             @ (if joined = [] then utf16 ''none'' else joined))) w
                  in if utf16 ''major'' \<in> set requiredUpdates then (Inr major, w')
                     else if utf16 ''minor'' \<in> set requiredUpdates then (Inr minor, w')
                     else (Inr patch, w'))"

text \<open>
  An escape sequence is a text the pattern matches as a whole. \<open>inside_escape a b\<close> says
  that the boundary between \<open>a\<close> and \<open>b\<close> lies strictly inside an escape sequence of
  \<open>a @ b\<close>. \<open>escaped_from x y\<close>: the text \<open>y\<close> is \<open>x\<close> with escape sequences inserted, one
  after the other, none of them into the middle of an escape sequence already there.
\<close>

definition is_escape :: "jsstring \<Rightarrow> bool" where
  "is_escape e = (matcher False ANSI_ESCAPE_REGEX (e, []) = [([], [])])"

definition inside_escape :: "jsstring \<Rightarrow> jsstring \<Rightarrow> bool" where
  "inside_escape a b =
     (\<exists>a2 \<in> set (suffixes a). \<exists>b1 \<in> set (prefixes b). a2 \<noteq> [] \<and> b1 \<noteq> [] \<and> is_escape (a2 @ b1))"

inductive escaped_from :: "jsstring \<Rightarrow> jsstring \<Rightarrow> bool" where
  same: "escaped_from x x"
| insert: "escaped_from x (a @ b) \<Longrightarrow> is_escape e \<Longrightarrow> \<not> inside_escape a b
           \<Longrightarrow> escaped_from x (a @ e @ b)"

text \<open>
  \<open>starts_with ic p s\<close>: the text \<open>s\<close> begins with \<open>p\<close>, code unit by code unit, compared as the
  pattern matcher compares them. \<open>contains ic p s\<close>: \<open>p\<close> occurs somewhere in \<open>s\<close>.
\<close>

fun starts_with :: "bool \<Rightarrow> jsstring \<Rightarrow> jsstring \<Rightarrow> bool" where
  "starts_with ic [] s = True"
| "starts_with ic (p # ps) [] = False"
| "starts_with ic (p # ps) (x # xs) = (Canonicalize ic x = Canonicalize ic p \<and> starts_with ic ps xs)"

fun contains :: "bool \<Rightarrow> jsstring \<Rightarrow> jsstring \<Rightarrow> bool" where
  "contains ic p [] = starts_with ic p []"
| "contains ic p (x # xs) = (starts_with ic p (x # xs) \<or> contains ic p xs)"

text \<open>
  The severity phrase of the checker, and a text that mentions it in any letter case.
  Severities are ordered \<open>major > minor > patch\<close>.
\<close>

definition phrase :: "SemverType \<Rightarrow> jsstring" where
  "phrase S = utf16 ''semver requires new '' @ SemverType_string S @ utf16 '' version''"

definition mentions :: "SemverType \<Rightarrow> jsstring \<Rightarrow> bool" where
  "mentions S t = contains True (phrase S) t"

fun rank :: "SemverType \<Rightarrow> nat" where
  "rank patch = 0"
| "rank minor = 1"
| "rank major = 2"

text \<open>
  The text the severity scan reads: \<open>determineSemverType\<close> passes the combined output, and
  \<open>extractRequiredUpdatesFromText\<close> strips its argument once more.
\<close>

definition scanned_text :: "CommandResult \<Rightarrow> jsstring" where
  "scanned_text result = stripAnsi (combined_output result)"

text \<open>
  The success phrase in the words of the specification: \<open>no\<close>, then white space, then one
  of \<open>semver\<close>, \<open>public\<close>, \<open>api\<close>, in any letter case, somewhere in the text.
\<close>

definition same_ignoring_case :: "jsstring \<Rightarrow> jsstring \<Rightarrow> bool" where
  "same_ignoring_case w p = (map (Canonicalize True) w = map (Canonicalize True) p)"

definition success_phrase :: "jsstring \<Rightarrow> bool" where
  "success_phrase t =
     (\<exists>pre n ws w suf. t = pre @ n @ ws @ w @ suf
        \<and> same_ignoring_case n (utf16 ''no'')
        \<and> ws \<noteq> [] \<and> (\<forall>c\<in>set ws. isWhiteSpace c)
        \<and> (same_ignoring_case w (utf16 ''semver'') \<or> same_ignoring_case w (utf16 ''public'')
             \<or> same_ignoring_case w (utf16 ''api'')))"

text \<open>
  The cleaning of the output in the words of the specification. An escape sequence is ESC,
  then \<open>[\<close>, then digits and semicolons, then \<open>m\<close>. \<open>without_escapes raw clean\<close>: \<open>clean\<close> is \<open>raw\<close>
  with every escape sequence, met from left to right, left out. \<open>without_margin t c\<close>: \<open>c\<close> is \<open>t\<close>
  without the white space at its two ends. \<open>cleaned result c\<close>: \<open>c\<close> is the concatenation of
  stdout, a line feed and stderr, without escape sequences and without margin.
\<close>

definition escape_sequence :: "jsstring \<Rightarrow> bool" where
  "escape_sequence e = (3 \<le> length e \<and> take 2 e = [27, 91] \<and> last e = 109
     \<and> (\<forall>c\<in>set (butlast (drop 2 e)). (48 \<le> c \<and> c \<le> 57) \<or> c = 59))"

inductive without_escapes :: "jsstring \<Rightarrow> jsstring \<Rightarrow> bool" where
  empty: "without_escapes [] []"
| skip: "escape_sequence e \<Longrightarrow> without_escapes r c \<Longrightarrow> without_escapes (e @ r) c"
| keep: "\<forall>e\<in>set (prefixes (x # r)). \<not> escape_sequence e \<Longrightarrow> without_escapes r c
           \<Longrightarrow> without_escapes (x # r) (x # c)"

definition without_margin :: "jsstring \<Rightarrow> jsstring \<Rightarrow> bool" where
  "without_margin t c =
     (\<exists>a\<in>set (prefixes t). \<exists>b\<in>set (suffixes t). t = a @ c @ b
        \<and> (\<forall>x\<in>set a. isWhiteSpace x) \<and> (\<forall>x\<in>set b. isWhiteSpace x)
        \<and> (c \<noteq> [] \<longrightarrow> \<not> isWhiteSpace (hd c) \<and> \<not> isWhiteSpace (last c)))"

definition cleaned :: "CommandResult \<Rightarrow> jsstring \<Rightarrow> bool" where
  "cleaned result c =
     (\<exists>s. without_escapes (stdout result @ utf16 ''\<newline>'' @ stderr result) s \<and> without_margin s c)"

section \<open>Effects: results, exceptions, retries\<close>

text \<open>
  An operation of the program takes the world and gives back what it returned or threw,
  and the world after it. The logging calls of \<open>@actions/core\<close> append to the trace;
  the external collaborators are hooks that read and change \<open>ext\<close> only, lifted by \<open>call\<close>.
\<close>

definition io_return :: "'a \<Rightarrow> ('x, 'a) io" where
  "io_return x w = (Inr x, w)"

definition io_throw :: "thrown \<Rightarrow> ('x, 'a) io" where
  "io_throw e w = (Inl e, w)"

definition io_bind :: "('x, 'a) io \<Rightarrow> ('a \<Rightarrow> ('x, 'b) io) \<Rightarrow> ('x, 'b) io" where
  "io_bind m f w = (case m w of (Inl e, w') \<Rightarrow> (Inl e, w') | (Inr x, w') \<Rightarrow> f x w')"

definition io_then :: "('x, unit) io \<Rightarrow> ('x, 'b) io \<Rightarrow> ('x, 'b) io" where
  "io_then m k = io_bind m (\<lambda>_. k)"

definition io_catch :: "('x, 'a) io \<Rightarrow> (thrown \<Rightarrow> ('x, 'a) io) \<Rightarrow> ('x, 'a) io" where
  "io_catch m h w = (case m w of (Inl e, w') \<Rightarrow> h e w' | (Inr x, w') \<Rightarrow> (Inr x, w'))"

definition log :: "event \<Rightarrow> ('x, unit) io" where
  "log e w = (Inr (), emit e w)"

definition io_when :: "bool \<Rightarrow> ('x, unit) io \<Rightarrow> ('x, unit) io" where
  "io_when b m = (if b then m else io_return ())"

type_synonym ('x, 'a) hook = "'x \<Rightarrow> (thrown + 'a) \<times> 'x"

definition call :: "('x, 'a) hook \<Rightarrow> ('x, 'a) io" where
  "call h w = (case h (ext w) of (r, x') \<Rightarrow> (r, w\<lparr>ext := x'\<rparr>))"

text \<open>
  The outcome of an operation: what it returned or threw, and the state of the collaborators
  after it; the trace is left aside.
\<close>

definition outcome :: "(thrown + 'a) \<times> 'x world \<Rightarrow> (thrown + 'a) \<times> 'x" where
  "outcome r = (fst r, ext (snd r))"

text \<open>\<open>String(n)\<close> for a natural number and for an exit status (\<open>null\<close> when a signal ended the process).\<close>

fun String_nat :: "nat \<Rightarrow> jsstring" where
  "String_nat n = (if n < 10 then [48 + n] else String_nat (n div 10) @ [48 + n mod 10])"

declare String_nat.simps [simp del]

definition String_status :: "int option \<Rightarrow> jsstring" where
  "String_status s = (case s of None \<Rightarrow> utf16 ''null''
     | Some i \<Rightarrow> if i < 0 then utf16 ''-'' @ String_nat (nat (- i)) else String_nat (nat i))"

text \<open>
  A number of a JSON payload or response, as far as the program looks at it: the program
  tests it for truthiness, renders it with \<open>String\<close> and hands it on. \<open>Integer i\<close> is an
  integer (below \<open>10^21\<close> in magnitude, where \<open>String\<close> prints every digit), \<open>Other rendering\<close> is
  any other number but \<open>NaN\<close> (a fraction, an infinity), given by what \<open>String\<close> prints for it.
  Zero and \<open>NaN\<close> are falsy, every other number is truthy.
\<close>

datatype js_number = Integer int | Other jsstring | NotANumber

fun number_truthy :: "js_number \<Rightarrow> bool" where
  "number_truthy (Integer i) = (i \<noteq> 0)"
| "number_truthy (Other rendering) = True"
| "number_truthy NotANumber = False"

fun String_number :: "js_number \<Rightarrow> jsstring" where
  "String_number (Integer i) = (if i < 0 then utf16 ''-'' @ String_nat (nat (- i)) else String_nat (nat i))"
| "String_number (Other rendering) = rendering"
| "String_number NotANumber = utf16 ''NaN''"

definition RETRYABLE_STATUS_CODES :: "nat set" where
  "RETRYABLE_STATUS_CODES = {502, 503, 504}"

fun isRetryableError :: "thrown \<Rightarrow> bool" where
  "isRetryableError (NonObject rendering) = False"
| "isRetryableError (ErrorObject msg st cd) =
     (case st of None \<Rightarrow> False | Some s \<Rightarrow> s \<noteq> 0 \<and> s \<in> RETRYABLE_STATUS_CODES)"

text \<open>
  The loop of \<open>withRetries\<close>, from the attempt counter \<open>attempt\<close> on. The wait between two
  attempts is the \<open>Sleep\<close> event, in milliseconds.
\<close>

function withRetries_from :: "nat \<Rightarrow> ('x, 'a) io \<Rightarrow> jsstring \<Rightarrow> nat \<Rightarrow> ('x, 'a) io" where
  "withRetries_from attempt operation label maxAttempts w =
     (if attempt \<le> maxAttempts
      then (case operation w of
              (Inr x, w') \<Rightarrow> (Inr x, w')
            | (Inl err, w') \<Rightarrow>
                let message = message_of err
                in if attempt \<ge> maxAttempts \<or> \<not> isRetryableError err then (Inl err, w')
                   else withRetries_from (attempt + 1) operation label maxAttempts
                          (emit (Sleep (1000 * attempt))
                            (emit (Warning (label @ utf16 '' failed ('' @ message @ utf16 ''). Retrying (''
                               @ String_nat attempt @ utf16 ''/'' @ String_nat maxAttempts @ utf16 '')...'')) w')))
      else (Inl (Error (label @ utf16 '' failed after '' @ String_nat maxAttempts @ utf16 '' attempts.'')), w))"
  by pat_completeness auto
termination
  by (relation "measure (\<lambda>(attempt, operation, label, maxAttempts, w). Suc maxAttempts - attempt)") auto

declare withRetries_from.simps [simp del]

definition withRetries :: "('x, 'a) io \<Rightarrow> jsstring \<Rightarrow> nat \<Rightarrow> ('x, 'a) io" where
  "withRetries operation label maxAttempts = withRetries_from 1 operation label maxAttempts"

definition default_maxAttempts :: nat where
  "default_maxAttempts = 3"

section \<open>Commands, installation and the checker run\<close>

text \<open>
  The inputs of the action and what the runtime tells it: \<open>core.getInput\<close>, \<open>core.isDebug\<close>,
  the event of \<open>github.context\<close>, \<open>process.env\<close>, \<open>process.cwd()\<close> and the \<open>os\<close> queries.
\<close>

record pull_request_payload =
  pr_number :: js_number
  pr_base_sha :: "jsstring option"

record pull =
  number :: "js_number option"
  base_sha :: "jsstring option"

record repository_owner =
  owner_login :: "jsstring option"
  owner_name :: "jsstring option"

record head_repo =
  head_owner :: "repository_owner option"
  full_name :: "jsstring option"
  repo_name :: "jsstring option"

record workflow_run_payload =
  run_id :: "nat option"
  conclusion :: "jsstring option"
  pull_requests :: "pull list option"
  head_repository :: "head_repo option"
  head_branch :: "jsstring option"
  head_sha :: "jsstring option"

record action_context =
  getInput :: "jsstring \<Rightarrow> jsstring"
  isDebug :: bool
  eventName :: jsstring
  payload_pull_request :: "pull_request_payload option"
  payload_workflow_run :: "workflow_run_payload option"
  context_owner :: jsstring
  context_repo :: jsstring
  process_env :: "(jsstring \<times> jsstring) list"
  process_cwd :: jsstring
  os_platform :: jsstring
  os_arch :: jsstring
  os_tmpdir :: jsstring
  os_homedir :: jsstring
  path_join :: "jsstring list \<Rightarrow> jsstring"

text \<open>
  The external collaborators below the program: the process spawner, the file system and
  the two network operations of the program, \<open>httpsGet\<close> and \<open>getLatestVersion\<close>, whose
  bodies are callbacks on the transport and are taken as what they resolve or reject with.
\<close>

record SpawnSyncOptions =
  opt_cwd :: "jsstring option"
  opt_env :: "(jsstring \<times> jsstring) list option"

record 'x system =
  spawnSync :: "jsstring \<Rightarrow> jsstring list \<Rightarrow> SpawnSyncOptions \<Rightarrow> 'x \<Rightarrow> CommandResult \<times> 'x"
  httpsGet :: "jsstring \<Rightarrow> ('x, nat list) hook"
  getLatestVersion :: "('x, jsstring) hook"
  mkdtempSync :: "jsstring \<Rightarrow> ('x, jsstring) hook"
  writeFileSync :: "jsstring \<Rightarrow> nat list \<Rightarrow> ('x, unit) hook"
  existsSync :: "jsstring \<Rightarrow> 'x \<Rightarrow> bool"
  mkdirSync :: "jsstring \<Rightarrow> ('x, unit) hook"
  copyFileSync :: "jsstring \<Rightarrow> jsstring \<Rightarrow> ('x, unit) hook"
  chmodSync :: "jsstring \<Rightarrow> nat \<Rightarrow> ('x, unit) hook"
  rmSync :: "jsstring \<Rightarrow> ('x, unit) hook"

definition DEFAULT_CARGO_SEMVER_CHECKS_VERSION :: jsstring where
  "DEFAULT_CARGO_SEMVER_CHECKS_VERSION = utf16 ''latest''"

definition DEFAULT_LABEL_PREFIX :: jsstring where
  "DEFAULT_LABEL_PREFIX = utf16 ''semver: ''"

definition GITHUB_RELEASES_BASE :: jsstring where
  "GITHUB_RELEASES_BASE = utf16 ''https://github.com/obi1kenobi/cargo-semver-checks/releases''"

definition runCommand :: "'x system \<Rightarrow> jsstring \<Rightarrow> jsstring list \<Rightarrow> SpawnSyncOptions \<Rightarrow> ('x, CommandResult) io" where
  "runCommand sys command args options w =
     (case spawnSync sys command args options (ext w) of
        (result, x') \<Rightarrow>
          (case error result of
             Some err \<Rightarrow>
               (Inl (Error (utf16 ''Failed to run '' @ [34] @ command @ utf16 '' '' @ join args (utf16 '' '')
                        @ [34] @ utf16 '': '' @ message_of err)), w\<lparr>ext := x'\<rparr>)
           | None \<Rightarrow> (Inr result, w\<lparr>ext := x'\<rparr>)))"

definition ensureGitShaAvailable :: "'x system \<Rightarrow> jsstring \<Rightarrow> jsstring \<Rightarrow> ('x, unit) io" where
  "ensureGitShaAvailable sys sha cwd =
     io_then (log (Info (utf16 ''Checking if base SHA '' @ sha @ utf16 '' is available...'')))
     (io_bind (runCommand sys (utf16 ''git'') [utf16 ''cat-file'', utf16 ''-e'', sha @ utf16 ''^{commit}'']
                 \<lparr>opt_cwd = Some cwd, opt_env = None\<rparr>)
       (\<lambda>check.
          if status check = Some 0 then log (Info (utf16 ''Base SHA is already available.''))
          else
            io_then (log (Info (utf16 ''Fetching base SHA '' @ sha @ utf16 '' from origin...'')))
            (io_bind (runCommand sys (utf16 ''git'')
                        [utf16 ''fetch'', utf16 ''--no-tags'', utf16 ''--depth=1'', utf16 ''origin'', sha]
                        \<lparr>opt_cwd = Some cwd, opt_env = None\<rparr>)
              (\<lambda>fetch.
                 if status fetch \<noteq> Some 0
                 then io_throw (Error (utf16 ''Failed to fetch base SHA '' @ sha @ utf16 '': ''
                        @ trim (stripAnsi (stdout fetch @ utf16 ''\<newline>'' @ stderr fetch))))
                 else log (Info (utf16 ''Base SHA fetched successfully.''))))))"

definition getTargetTriple :: "action_context \<Rightarrow> jsstring option" where
  "getTargetTriple ctx =
     (let platform = os_platform ctx; arch = os_arch ctx
      in if platform = utf16 ''linux'' \<and> arch = utf16 ''x64'' then Some (utf16 ''x86_64-unknown-linux-gnu'')
         else if platform = utf16 ''linux'' \<and> arch = utf16 ''arm64'' then Some (utf16 ''aarch64-unknown-linux-gnu'')
         else if platform = utf16 ''darwin'' \<and> arch = utf16 ''x64'' then Some (utf16 ''x86_64-apple-darwin'')
         else if platform = utf16 ''darwin'' \<and> arch = utf16 ''arm64'' then Some (utf16 ''aarch64-apple-darwin'')
         else if platform = utf16 ''win32'' \<and> arch = utf16 ''x64'' then Some (utf16 ''x86_64-pc-windows-msvc'')
         else None)"

definition installFromRelease :: "action_context \<Rightarrow> 'x system \<Rightarrow> jsstring \<Rightarrow> ('x, unit) io" where
  "installFromRelease ctx sys version =
     (case getTargetTriple ctx of
        None \<Rightarrow> io_throw (Error (utf16 ''Unsupported platform: '' @ os_platform ctx @ utf16 ''-'' @ os_arch ctx))
      | Some triple \<Rightarrow>
          io_bind
            (if version = DEFAULT_CARGO_SEMVER_CHECKS_VERSION
             then io_then (log (Info (utf16 ''Resolving latest version...'')))
                    (io_bind (call (getLatestVersion sys))
                       (\<lambda>resolved. io_then (log (Info (utf16 ''Latest version: '' @ resolved)))
                                      (io_return resolved)))
             else io_return version)
          (\<lambda>resolvedVersion.
             let versionTag = (if starts_with False (utf16 ''v'') resolvedVersion then resolvedVersion
                               else utf16 ''v'' @ resolvedVersion);
                 isWindows = (os_platform ctx = utf16 ''win32'');
                 archiveExt = (if isWindows then utf16 ''zip'' else utf16 ''tar.gz'');
                 assetName = utf16 ''cargo-semver-checks-'' @ triple @ utf16 ''.'' @ archiveExt;
                 downloadUrl = GITHUB_RELEASES_BASE @ utf16 ''/download/'' @ versionTag @ utf16 ''/'' @ assetName
             in io_then (log (Info (utf16 ''Downloading: '' @ downloadUrl)))
                (io_bind (call (httpsGet sys downloadUrl))
                (\<lambda>data.
                 io_bind (call (mkdtempSync sys (path_join ctx [os_tmpdir ctx, utf16 ''cargo-semver-checks-''])))
                (\<lambda>tempDir.
                 let archivePath = path_join ctx [tempDir, assetName];
                     binDir = path_join ctx [os_homedir ctx, utf16 ''.cargo'', utf16 ''bin'']
                 in io_then (call (writeFileSync sys archivePath data))
                   (io_then (\<lambda>w. if \<not> existsSync sys binDir (ext w) then call (mkdirSync sys binDir) w
                                    else io_return () w)
                   (io_then
                     (if isWindows
                      then io_bind (runCommand sys (utf16 ''powershell'')
                             [utf16 ''-Command'',
                              utf16 ''Expand-Archive -Path '' @ [39] @ archivePath @ [39]
                                @ utf16 '' -DestinationPath '' @ [39] @ tempDir @ [39] @ utf16 '' -Force'']
                             \<lparr>opt_cwd = None, opt_env = None\<rparr>)
                           (\<lambda>unzip.
                              if status unzip \<noteq> Some 0
                              then io_throw (Error (utf16 ''Failed to extract zip: '' @ stderr unzip))
                              else call (copyFileSync sys (path_join ctx [tempDir, utf16 ''cargo-semver-checks.exe''])
                                           (path_join ctx [binDir, utf16 ''cargo-semver-checks.exe''])))
                      else io_bind (runCommand sys (utf16 ''tar'') [utf16 ''-xzf'', archivePath, utf16 ''-C'', tempDir]
                             \<lparr>opt_cwd = None, opt_env = None\<rparr>)
                           (\<lambda>tar.
                              if status tar \<noteq> Some 0
                              then io_throw (Error (utf16 ''Failed to extract tarball: '' @ stderr tar))
                              else
                                let binPath = path_join ctx [tempDir, utf16 ''cargo-semver-checks''];
                                    destPath = path_join ctx [binDir, utf16 ''cargo-semver-checks'']
                                in io_then (call (copyFileSync sys binPath destPath))
                                     (call (chmodSync sys destPath 493))))
                   (io_then (call (rmSync sys tempDir))
                      (log (Info (utf16 ''cargo-semver-checks installed from release successfully.'')))))))))))"

definition installWithCargo :: "action_context \<Rightarrow> 'x system \<Rightarrow> jsstring \<Rightarrow> jsstring \<Rightarrow> jsstring \<Rightarrow> ('x, unit) io" where
  "installWithCargo ctx sys version cwd toolchain =
     (let args = (if toolchain \<noteq> [] then [utf16 ''+'' @ toolchain] else [])
                 @ [utf16 ''install'', utf16 ''cargo-semver-checks'', utf16 ''--locked'']
                 @ (if version \<noteq> [] \<and> version \<noteq> DEFAULT_CARGO_SEMVER_CHECKS_VERSION
                    then [utf16 ''--version'', version] else [])
      in io_then (log (Info (utf16 ''Installing cargo-semver-checks: cargo '' @ join args (utf16 '' ''))))
         (io_bind (runCommand sys (utf16 ''cargo'') args \<lparr>opt_cwd = Some cwd, opt_env = Some (process_env ctx)\<rparr>)
            (\<lambda>install.
               if status install \<noteq> Some 0
               then io_throw (Error (utf16 ''cargo-semver-checks install failed: ''
                      @ trim (stripAnsi (stdout install @ utf16 ''\<newline>'' @ stderr install))))
               else log (Info (utf16 ''cargo-semver-checks installed successfully.'')))))"

definition installCargoSemverChecks ::
  "action_context \<Rightarrow> 'x system \<Rightarrow> jsstring \<Rightarrow> jsstring \<Rightarrow> jsstring \<Rightarrow> bool \<Rightarrow> ('x, unit) io" where
  "installCargoSemverChecks ctx sys version cwd toolchain useReleaseBinary =
     io_bind (runCommand sys (utf16 ''cargo'') [utf16 ''--version''] \<lparr>opt_cwd = Some cwd, opt_env = None\<rparr>)
       (\<lambda>cargoCheck.
          if status cargoCheck \<noteq> Some 0 then io_throw (Error (utf16 ''cargo is not available in PATH.''))
          else
            io_then (log (Info (utf16 ''Cargo version: '' @ trim (stdout cargoCheck))))
            (io_bind
              (if useReleaseBinary
               then (case getTargetTriple ctx of
                       Some triple \<Rightarrow>
                         io_catch (io_then (installFromRelease ctx sys version) (io_return True))
                           (\<lambda>err. io_then
                              (log (Warning (utf16 ''Failed to install from release: '' @ message_of err
                                 @ utf16 ''. Falling back to cargo install.'')))
                              (io_return False))
                     | None \<Rightarrow>
                         io_then (log (Info (utf16 ''No prebuilt binary for '' @ os_platform ctx @ utf16 ''-''
                                    @ os_arch ctx @ utf16 '', using cargo install.'')))
                           (io_return False))
               else io_return False)
              (\<lambda>installed. if installed then io_return () else installWithCargo ctx sys version cwd toolchain)))"

record SemverChecksOptions =
  opt_baseSha :: jsstring
  opt_workdir :: jsstring
  opt_packageName :: jsstring
  opt_toolchain :: jsstring
  opt_featureGroup :: jsstring
  opt_features :: jsstring
  opt_rustTarget :: jsstring

definition env_put :: "jsstring \<Rightarrow> jsstring \<Rightarrow> (jsstring \<times> jsstring) list \<Rightarrow> (jsstring \<times> jsstring) list" where
  "env_put k v env =
     (if k \<in> fst ` set env then map (\<lambda>kv. if fst kv = k then (k, v) else kv) env else env @ [(k, v)])"

definition runSemverChecks :: "action_context \<Rightarrow> 'x system \<Rightarrow> SemverChecksOptions \<Rightarrow> ('x, CommandResult) io" where
  "runSemverChecks ctx sys options =
     (let env = env_put (utf16 ''CARGO_TERM_COLOR'') (utf16 ''always'') (process_env ctx);
          args = (if opt_toolchain options \<noteq> [] then [utf16 ''+'' @ opt_toolchain options] else [])
                 @ [utf16 ''semver-checks'', utf16 ''--baseline-rev'', opt_baseSha options, utf16 ''--release-type=patch'']
                 @ (if opt_packageName options \<noteq> [] then [utf16 ''-p'', opt_packageName options]
                    else [utf16 ''--workspace''])
                 @ (if opt_featureGroup options = utf16 ''all-features'' then [utf16 ''--all-features'']
                    else if opt_featureGroup options = utf16 ''default-features'' then [utf16 ''--default-features'']
                    else if opt_featureGroup options = utf16 ''only-explicit-features''
                    then [utf16 ''--only-explicit-features''] else [])
                 @ (if opt_features options \<noteq> [] then [utf16 ''--features'', opt_features options] else [])
                 @ (if opt_rustTarget options \<noteq> [] then [utf16 ''--target'', opt_rustTarget options] else [])
      in io_then (log (Info (utf16 ''Running: cargo '' @ join args (utf16 '' ''))))
        (io_then (log (Info (utf16 ''---'')))
        (io_bind (runCommand sys (utf16 ''cargo'') args \<lparr>opt_cwd = Some (opt_workdir options), opt_env = Some env\<rparr>)
        (\<lambda>result.
           io_then (io_when (stdout result \<noteq> []) (log (Info (stdout result))))
          (io_then (io_when (stderr result \<noteq> []) (log (Info (stderr result))))
          (io_then (log (Info (utf16 ''---'')))
          (io_then (log (Info (utf16 ''Exit code: '' @ String_status (status result))))
          (io_return result))))))))"

section \<open>Context resolver\<close>

text \<open>
  The platform client. \<open>pulls_list owner repo head state\<close>, \<open>pulls_get owner repo pull_number\<close>
  and the others are the \<open>octokit.rest\<close> methods of the same names; each resolves with the
  \<open>data\<close> of the response or rejects with an error that carries the HTTP status.
\<close>

record 'x Octokit =
  pulls_list :: "jsstring \<Rightarrow> jsstring \<Rightarrow> jsstring \<Rightarrow> jsstring \<Rightarrow> ('x, pull list) hook"
  repos_listPullRequestsAssociatedWithCommit :: "jsstring \<Rightarrow> jsstring \<Rightarrow> jsstring \<Rightarrow> ('x, pull list) hook"
  pulls_get :: "jsstring \<Rightarrow> jsstring \<Rightarrow> js_number \<Rightarrow> ('x, pull) hook"
  issues_getLabel :: "jsstring \<Rightarrow> jsstring \<Rightarrow> jsstring \<Rightarrow> ('x, unit) hook"
  issues_createLabel :: "jsstring \<Rightarrow> jsstring \<Rightarrow> jsstring \<Rightarrow> jsstring \<Rightarrow> jsstring \<Rightarrow> ('x, unit) hook"
  issues_removeLabel :: "jsstring \<Rightarrow> jsstring \<Rightarrow> js_number \<Rightarrow> jsstring \<Rightarrow> ('x, unit) hook"
  issues_listLabelsOnIssue :: "jsstring \<Rightarrow> jsstring \<Rightarrow> js_number \<Rightarrow> ('x, jsstring list) hook"
  issues_addLabels :: "jsstring \<Rightarrow> jsstring \<Rightarrow> js_number \<Rightarrow> jsstring list \<Rightarrow> ('x, unit) hook"

datatype PrContextResolution =
    Skip jsstring
  | Proceed js_number jsstring

text \<open>
  Truthiness of an optional string and of an optional number, and \<open>a || b\<close> on optional
  strings: an absent value, the empty string, zero and \<open>NaN\<close> are falsy.
\<close>

definition truthy :: "jsstring option \<Rightarrow> bool" where
  "truthy a = (case a of None \<Rightarrow> False | Some s \<Rightarrow> s \<noteq> [])"

definition truthy_number :: "js_number option \<Rightarrow> bool" where
  "truthy_number a = (case a of None \<Rightarrow> False | Some n \<Rightarrow> number_truthy n)"

definition or_else :: "jsstring option \<Rightarrow> jsstring option \<Rightarrow> jsstring option" where
  "or_else a b = (if truthy a then a else b)"

definition or_text :: "jsstring option \<Rightarrow> jsstring \<Rightarrow> jsstring" where
  "or_text a b = (case a of None \<Rightarrow> b | Some s \<Rightarrow> if s \<noteq> [] then s else b)"

text \<open>Lines 482 to 499: the PR number must be known; a missing base commit is fetched by number.\<close>

definition resolve_base :: "'x Octokit \<Rightarrow> jsstring \<Rightarrow> jsstring \<Rightarrow> js_number option \<Rightarrow> jsstring option
    \<Rightarrow> ('x, PrContextResolution) io" where
  "resolve_base octokit owner repo prNumber baseSha =
     (case prNumber of
        None \<Rightarrow> io_throw (Error (utf16 ''workflow_run pull_request is missing number.''))
      | Some n \<Rightarrow>
          if \<not> number_truthy n then io_throw (Error (utf16 ''workflow_run pull_request is missing number.''))
          else
            io_bind
              (if \<not> truthy baseSha
               then io_bind (call (pulls_get octokit owner repo n))
                      (\<lambda>prData. io_return (or_else (base_sha prData) None))
               else io_return baseSha)
              (\<lambda>baseSha'.
                 case baseSha' of
                   None \<Rightarrow> io_throw (Error (utf16 ''Unable to determine the PR base SHA.''))
                 | Some sha \<Rightarrow>
                     if sha = [] then io_throw (Error (utf16 ''Unable to determine the PR base SHA.''))
                     else io_return (Proceed n sha)))"

text \<open>Lines 455 to 475: the lookup by head commit, made when the PR number is still unknown.\<close>

definition resolve_from_head_sha :: "action_context \<Rightarrow> 'x Octokit \<Rightarrow> jsstring \<Rightarrow> jsstring
    \<Rightarrow> workflow_run_payload \<Rightarrow> js_number option \<Rightarrow> jsstring option
    \<Rightarrow> ('x, js_number option \<times> jsstring option) io" where
  "resolve_from_head_sha ctx octokit owner repo workflowRun prNumber baseSha =
     (if \<not> truthy_number prNumber
      then (case head_sha workflowRun of
              None \<Rightarrow> io_throw (Error (utf16 ''workflow_run is missing head_sha.''))
            | Some headSha \<Rightarrow>
                if headSha = [] then io_throw (Error (utf16 ''workflow_run is missing head_sha.''))
                else
                  io_then (log (Info (utf16 ''Resolving PR from head_sha.'')))
                  (io_bind (call (repos_listPullRequestsAssociatedWithCommit octokit owner repo headSha))
                  (\<lambda>associatedPRs.
                     io_then (io_when (isDebug ctx)
                       (log (Debug (utf16 ''PRs for head_sha '' @ headSha @ utf16 '': ''
                          @ String_nat (length associatedPRs)))))
                     (case associatedPRs of
                        [pr] \<Rightarrow> io_return (number pr, or_else (base_sha pr) baseSha)
                      | _ \<Rightarrow> io_throw (Error (utf16 ''Unable to resolve PR from head_sha; found ''
                                @ String_nat (length associatedPRs) @ utf16 ''.''))))))
      else io_return (prNumber, baseSha))"

text \<open>Lines 432 to 434: \<open>headRepo?.owner?.login || headRepo?.owner?.name\<close>.\<close>

definition headOwner_of :: "workflow_run_payload \<Rightarrow> jsstring option" where
  "headOwner_of workflowRun =
     (case head_repository workflowRun of
        None \<Rightarrow> None
      | Some hr \<Rightarrow> (case head_owner hr of None \<Rightarrow> None | Some ow \<Rightarrow> or_else (owner_login ow) (owner_name ow)))"

text \<open>Lines 430 to 453: the lookup by head branch, made when the run lists no pull request.\<close>

definition resolve_from_head_branch :: "action_context \<Rightarrow> 'x Octokit \<Rightarrow> jsstring \<Rightarrow> jsstring
    \<Rightarrow> workflow_run_payload \<Rightarrow> jsstring option
    \<Rightarrow> ('x, js_number option \<times> jsstring option) io" where
  "resolve_from_head_branch ctx octokit owner repo workflowRun baseSha =
     (let headBranch = head_branch workflowRun;
          headOwner = headOwner_of workflowRun
      in case (headOwner, headBranch) of
           (Some ho, Some hb) \<Rightarrow>
             if ho \<noteq> [] \<and> hb \<noteq> []
             then
               io_then (log (Info (utf16 ''workflow_run.pull_requests is empty; resolving PR from head repository.'')))
               (io_bind (call (pulls_list octokit owner repo (ho @ utf16 '':'' @ hb) (utf16 ''open'')))
               (\<lambda>headPRs.
                  io_then (io_when (isDebug ctx)
                    (log (Debug (utf16 ''PRs for head '' @ ho @ utf16 '':'' @ hb @ utf16 '': ''
                       @ String_nat (length headPRs)))))
                  (case headPRs of
                     [] \<Rightarrow> io_return (None, baseSha)
                   | [pr] \<Rightarrow> io_return (number pr, or_else (base_sha pr) baseSha)
                   | _ \<Rightarrow> io_throw (Error (utf16 ''Unable to resolve PR from head ref; found ''
                             @ String_nat (length headPRs) @ utf16 ''.'')))))
             else io_return (None, baseSha)
         | _ \<Rightarrow> io_return (None, baseSha))"

definition resolvePrContext :: "action_context \<Rightarrow> 'x Octokit \<Rightarrow> jsstring \<Rightarrow> jsstring
    \<Rightarrow> ('x, PrContextResolution) io" where
  "resolvePrContext ctx octokit owner repo =
     io_then (io_when (isDebug ctx) (log (Debug (utf16 ''Event name: '' @ eventName ctx))))
     (if eventName ctx = utf16 ''pull_request''
      then (case payload_pull_request ctx of
              None \<Rightarrow> io_throw (Error (utf16 ''Missing pull_request payload.''))
            | Some pr \<Rightarrow>
                (case pr_base_sha pr of
                   None \<Rightarrow> io_throw (Error (utf16 ''Unable to determine the PR base SHA.''))
                 | Some baseSha \<Rightarrow>
                     if baseSha = [] then io_throw (Error (utf16 ''Unable to determine the PR base SHA.''))
                     else io_return (Proceed (pr_number pr) baseSha)))
      else if eventName ctx = utf16 ''workflow_run''
      then (case payload_workflow_run ctx of
              None \<Rightarrow> io_throw (Error (utf16 ''Missing workflow_run payload.''))
            | Some workflowRun \<Rightarrow>
                io_then (io_when (isDebug ctx)
                  (let headRepo = head_repository workflowRun;
                       headRepoName = (case headRepo of None \<Rightarrow> utf16 ''unknown''
                          | Some hr \<Rightarrow> or_text (or_else (full_name hr) (repo_name hr)) (utf16 ''unknown''))
                   in log (Debug (utf16 ''workflow_run id=''
                        @ (case run_id workflowRun of None \<Rightarrow> utf16 ''unknown''
                           | Some i \<Rightarrow> if i = 0 then utf16 ''unknown'' else String_nat i)
                        @ utf16 '' head_sha='' @ or_text (head_sha workflowRun) (utf16 ''n/a'')
                        @ utf16 '' head_branch='' @ or_text (head_branch workflowRun) (utf16 ''n/a'')
                        @ utf16 '' head_repo='' @ headRepoName))))
                (if conclusion workflowRun \<noteq> Some (utf16 ''success'')
                 then
                   let rendered = or_text (conclusion workflowRun) (utf16 ''unknown'')
                   in io_return (Skip (utf16 ''workflow_run conclusion is '' @ rendered
                        @ utf16 ''; skipping semver checks.''))
                 else
                   let pullRequests = (case pull_requests workflowRun of None \<Rightarrow> [] | Some prs \<Rightarrow> prs);
                       baseSha = (case pullRequests of [] \<Rightarrow> None | pr # _ \<Rightarrow> base_sha pr)
                   in io_bind
                        (case pullRequests of
                           [pr] \<Rightarrow> io_return (number pr, baseSha)
                         | [] \<Rightarrow>
                             io_bind (resolve_from_head_branch ctx octokit owner repo workflowRun baseSha)
                               (\<lambda>(prNumber, baseSha').
                                  resolve_from_head_sha ctx octokit owner repo workflowRun prNumber baseSha')
                         | _ \<Rightarrow> io_throw (Error (utf16 ''workflow_run must have exactly one pull request, found ''
                                   @ String_nat (length pullRequests) @ utf16 ''.'')))
                        (\<lambda>(prNumber, baseSha'). resolve_base octokit owner repo prNumber baseSha')))
      else io_throw (Error (utf16 ''Unsupported event type: '' @ eventName ctx)))"

section \<open>Label reconciliation\<close>

text \<open>
  What \<open>catch\<close> of \<open>ensureLabelExists\<close> and \<open>removeLabelIfExists\<close> lets pass: an error object
  whose status is 404. Anything else is thrown again.
\<close>

fun is_404 :: "thrown \<Rightarrow> bool" where
  "is_404 (NonObject rendering) = False"
| "is_404 (ErrorObject msg st cd) = (st = Some 404)"

definition ensureLabelExists :: "'x Octokit \<Rightarrow> jsstring \<Rightarrow> jsstring \<Rightarrow> jsstring \<Rightarrow> ('x, unit) io" where
  "ensureLabelExists octokit owner repo name =
     io_bind
       (io_catch (io_then (call (issues_getLabel octokit owner repo name)) (io_return True))
          (\<lambda>err. if \<not> is_404 err then io_throw err else io_return False))
       (\<lambda>found.
          if found then io_return ()
          else call (issues_createLabel octokit owner repo name (utf16 ''ededed'')
                       (utf16 ''Semver required update'')))"

definition removeLabelIfExists :: "'x Octokit \<Rightarrow> jsstring \<Rightarrow> jsstring \<Rightarrow> js_number \<Rightarrow> jsstring \<Rightarrow> ('x, unit) io" where
  "removeLabelIfExists octokit owner repo issueNumber name =
     io_catch (call (issues_removeLabel octokit owner repo issueNumber name))
       (\<lambda>err. if \<not> is_404 err then io_throw err else io_return ())"

fun remove_old_labels :: "'x Octokit \<Rightarrow> jsstring \<Rightarrow> jsstring \<Rightarrow> js_number \<Rightarrow> jsstring \<Rightarrow> jsstring
    \<Rightarrow> jsstring list \<Rightarrow> ('x, unit) io" where
  "remove_old_labels octokit owner repo issueNumber labelPrefix newLabel [] = io_return ()"
| "remove_old_labels octokit owner repo issueNumber labelPrefix newLabel (label # labels) =
     io_then
       (if starts_with False labelPrefix label \<and> label \<noteq> newLabel
        then io_then (log (Info (utf16 ''Removing old label: '' @ label)))
               (removeLabelIfExists octokit owner repo issueNumber label)
        else io_return ())
       (remove_old_labels octokit owner repo issueNumber labelPrefix newLabel labels)"

definition upsertSemverLabel :: "'x Octokit \<Rightarrow> jsstring \<Rightarrow> jsstring \<Rightarrow> js_number \<Rightarrow> jsstring \<Rightarrow> jsstring
    \<Rightarrow> ('x, unit) io" where
  "upsertSemverLabel octokit owner repo issueNumber labelPrefix newLabel =
     io_then (log (Info (utf16 ''Fetching existing labels for issue #'' @ String_number issueNumber @ utf16 ''...'')))
     (io_bind (call (issues_listLabelsOnIssue octokit owner repo issueNumber))
     (\<lambda>existingLabels.
        let existingNames = fold Set_add existingLabels [];
            joined = join existingNames (utf16 '', '')
        in io_then (log (Info (utf16 ''Found '' @ String_nat (length existingLabels) @ utf16 '' existing labels: ''
                      @ (if joined = [] then utf16 ''(none)'' else joined))))
          (io_then
             (if labelPrefix \<noteq> []
              then remove_old_labels octokit owner repo issueNumber labelPrefix newLabel existingLabels
              else io_return ())
          (if newLabel \<notin> set existingNames
           then io_then (log (Info (utf16 ''Adding new label: '' @ newLabel)))
                 (io_then (ensureLabelExists octokit owner repo newLabel)
                    (call (issues_addLabels octokit owner repo issueNumber [newLabel])))
           else log (Info (utf16 ''Label '' @ [34] @ newLabel @ [34] @ utf16 '' already exists, skipping.''))))))"

section \<open>The run\<close>

text \<open>
  \<open>core.getInput(name, { required: true })\<close> throws when the input is empty. \<open>message.includes\<close>
  is \<open>contains\<close> without case folding.
\<close>

definition getInput_required :: "action_context \<Rightarrow> jsstring \<Rightarrow> ('x, jsstring) io" where
  "getInput_required ctx name =
     (if getInput ctx name = [] then io_throw (Error (utf16 ''Input required and not supplied: '' @ name))
      else io_return (getInput ctx name))"

definition input_or :: "action_context \<Rightarrow> jsstring \<Rightarrow> jsstring \<Rightarrow> jsstring" where
  "input_or ctx name dflt = (if getInput ctx name = [] then dflt else getInput ctx name)"

definition String_bool :: "bool \<Rightarrow> jsstring" where
  "String_bool b = (if b then utf16 ''true'' else utf16 ''false'')"

text \<open>Lines 658 to 668 of \<open>run\<close>: the label is built, applied under the retry policy and published.\<close>

definition apply_label :: "'x Octokit \<Rightarrow> jsstring \<Rightarrow> jsstring \<Rightarrow> js_number \<Rightarrow> jsstring \<Rightarrow> SemverType
    \<Rightarrow> ('x, unit) io" where
  "apply_label octokit owner repo prNumber labelPrefix semverType =
     (let label = labelPrefix @ SemverType_string semverType
      in io_then (log (Info (utf16 ''Determined semver type: '' @ SemverType_string semverType)))
        (io_then (log (Info (utf16 ''Applying label '' @ [34] @ label @ [34] @ utf16 '' to PR #''
                    @ String_number prNumber @ utf16 ''...'')))
        (io_then (withRetries (upsertSemverLabel octokit owner repo prNumber labelPrefix label)
                    (utf16 ''Apply semver label'') default_maxAttempts)
        (io_then (log (Info (utf16 ''Label applied successfully.'')))
          (log (SetOutput (utf16 ''semver-type'') (SemverType_string semverType)))))))"

text \<open>
  The body of the \<open>try\<close> block of \<open>run\<close>, up to the classification; \<open>apply_label\<close> is its
  end. \<open>octokit\<close> is the client \<open>github.getOctokit\<close> builds.
\<close>

definition run_body :: "action_context \<Rightarrow> 'x system \<Rightarrow> 'x Octokit \<Rightarrow> ('x, unit) io" where
  "run_body ctx sys octokit =
     (let cargoVersion = input_or ctx (utf16 ''cargo-semver-checks-version'') DEFAULT_CARGO_SEMVER_CHECKS_VERSION;
          useReleaseBinaryInput = getInput ctx (utf16 ''use-release-binary'');
          useReleaseBinary = (useReleaseBinaryInput = [] \<or> useReleaseBinaryInput = utf16 ''true'');
          labelPrefix = input_or ctx (utf16 ''label-prefix'') DEFAULT_LABEL_PREFIX
      in io_bind (getInput_required ctx (utf16 ''github-token''))
      (\<lambda>githubToken.
         let packageName = getInput ctx (utf16 ''package'');
             toolchain = getInput ctx (utf16 ''toolchain'');
             featureGroup = getInput ctx (utf16 ''feature-group'');
             features = getInput ctx (utf16 ''features'');
             rustTarget = getInput ctx (utf16 ''rust-target'');
             owner = context_owner ctx;
             repo = context_repo ctx
         in io_bind (withRetries (resolvePrContext ctx octokit owner repo) (utf16 ''Resolve PR context'')
                       default_maxAttempts)
         (\<lambda>prContext.
            case prContext of
              Skip reason \<Rightarrow> log (Info reason)
            | Proceed prNumber baseSha \<Rightarrow>
                let cwd = or_text (map_of (process_env ctx) (utf16 ''GITHUB_WORKSPACE'')) (process_cwd ctx)
                in io_then (log (Info (utf16 ''Event: '' @ eventName ctx)))
                  (io_then (log (Info (utf16 ''PR number: '' @ String_number prNumber)))
                  (io_then (log (Info (utf16 ''Working directory: '' @ cwd)))
                  (io_then (log (Info (utf16 ''PR base SHA: '' @ baseSha)))
                  (io_then (log (Info (utf16 ''Use release binary: '' @ String_bool useReleaseBinary)))
                  (io_then (io_when (toolchain \<noteq> []) (log (Info (utf16 ''Toolchain: '' @ toolchain))))
                  (io_then (io_when (packageName \<noteq> []) (log (Info (utf16 ''Package: '' @ packageName))))
                  (io_then (io_when (featureGroup \<noteq> []) (log (Info (utf16 ''Feature group: '' @ featureGroup))))
                  (io_then (io_when (features \<noteq> []) (log (Info (utf16 ''Features: '' @ features))))
                  (io_then (io_when (rustTarget \<noteq> []) (log (Info (utf16 ''Rust target: '' @ rustTarget))))
                  (io_then (log (Info []))
                  (io_then (ensureGitShaAvailable sys baseSha cwd)
                  (io_then (installCargoSemverChecks ctx sys cargoVersion cwd toolchain useReleaseBinary)
                  (io_then (log (Info []))
                  (io_bind (runSemverChecks ctx sys
                     \<lparr>opt_baseSha = baseSha, opt_workdir = cwd, opt_packageName = packageName,
                      opt_toolchain = toolchain, opt_featureGroup = featureGroup, opt_features = features,
                      opt_rustTarget = rustTarget\<rparr>)
                  (\<lambda>result.
                   io_bind (determineSemverType result)
                  (\<lambda>semverType. apply_label octokit owner repo prNumber labelPrefix semverType)))))))))))))))))))"

text \<open>
  \<open>run\<close>: the \<open>try\<close> block and its \<open>catch\<close>. \<open>core.setFailed\<close> is the \<open>SetFailed\<close> event; the
  \<open>try\<close> around it in the source has nothing to catch here.
\<close>

definition run :: "action_context \<Rightarrow> 'x system \<Rightarrow> 'x Octokit \<Rightarrow> ('x, unit) io" where
  "run ctx sys octokit =
     io_catch (run_body ctx sys octokit)
       (\<lambda>err.
          let message = message_of err
          in if \<not> contains False (utf16 ''EPIPE'') message then log (SetFailed message)
             else io_return ())"

section \<open>Output stream guards (stdio.ts)\<close>

text \<open>
  The module keeps one flag, \<open>streamBroken\<close>. A stream is its three state flags, read from
  the runtime, and the \<open>write\<close> it had before it was wrapped.
\<close>

record 'x stdio =
  streamBroken :: bool
  runtime :: 'x

record 'x WriteStream =
  destroyed :: "'x \<Rightarrow> bool"
  writableEnded :: "'x \<Rightarrow> bool"
  writable :: "'x \<Rightarrow> bool"
  originalWrite :: "jsstring \<Rightarrow> ('x, bool) hook"

fun isEpipe :: "thrown \<Rightarrow> bool" where
  "isEpipe (NonObject rendering) = False"
| "isEpipe (ErrorObject msg st cd) = (cd = Some (utf16 ''EPIPE''))"

definition shouldSkipWrite :: "'x WriteStream \<Rightarrow> 'x stdio \<Rightarrow> bool \<times> 'x stdio" where
  "shouldSkipWrite stream s =
     (if streamBroken s then (True, s)
      else if destroyed stream (runtime s) \<or> writableEnded stream (runtime s)
      then (True, s\<lparr>streamBroken := True\<rparr>)
      else (\<not> writable stream (runtime s), s))"

definition handleStreamError :: "thrown \<Rightarrow> 'x stdio \<Rightarrow> 'x stdio" where
  "handleStreamError err s = (if isEpipe err then s\<lparr>streamBroken := True\<rparr> else s)"

text \<open>The function \<open>wrapStreamWrite\<close> installs as \<open>stream.write\<close>.\<close>

definition wrapped_write :: "'x WriteStream \<Rightarrow> jsstring \<Rightarrow> 'x stdio \<Rightarrow> (thrown + bool) \<times> 'x stdio" where
  "wrapped_write stream chunk s =
     (case shouldSkipWrite stream s of
        (True, s') \<Rightarrow> (Inr False, s')
      | (False, s') \<Rightarrow>
          (case originalWrite stream chunk (runtime s') of
             (Inr r, x') \<Rightarrow> (Inr r, s'\<lparr>runtime := x'\<rparr>)
           | (Inl err, x') \<Rightarrow>
               if isEpipe err then (Inr False, s'\<lparr>runtime := x', streamBroken := True\<rparr>)
               else (Inl err, s'\<lparr>runtime := x'\<rparr>)))"

text \<open>
  The handlers of \<open>uncaughtException\<close> and \<open>unhandledRejection\<close>: the process goes on, or
  ends with an exit code, or the handler itself throws. \<open>String(error)\<close> of an error object
  is rendered with the name \<open>Error\<close>.
\<close>

datatype after_handler = Continues | Exits nat | HandlerThrows thrown

fun String_thrown :: "thrown \<Rightarrow> jsstring" where
  "String_thrown (ErrorObject msg st cd) = utf16 ''Error: '' @ msg"
| "String_thrown (NonObject rendering) = rendering"

definition on_uncaughtException :: "'x WriteStream \<Rightarrow> thrown \<Rightarrow> 'x stdio \<Rightarrow> after_handler \<times> 'x stdio" where
  "on_uncaughtException stderr_stream err s =
     (if isEpipe err then (Continues, s\<lparr>streamBroken := True\<rparr>)
      else (case wrapped_write stderr_stream (utf16 ''Uncaught exception: '' @ String_thrown err @ utf16 ''\<newline>'') s of
              (Inr r, s') \<Rightarrow> (Exits 1, s')
            | (Inl e, s') \<Rightarrow> (HandlerThrows e, s')))"

definition on_unhandledRejection :: "'x WriteStream \<Rightarrow> thrown \<Rightarrow> 'x stdio \<Rightarrow> after_handler \<times> 'x stdio" where
  "on_unhandledRejection stderr_stream reason s =
     (if isEpipe reason then (Continues, s\<lparr>streamBroken := True\<rparr>)
      else (case wrapped_write stderr_stream (utf16 ''Unhandled rejection: '' @ String_thrown reason @ utf16 ''\<newline>'') s of
              (Inr r, s') \<Rightarrow> (Exits 1, s')
            | (Inl e, s') \<Rightarrow> (HandlerThrows e, s')))"

section \<open>A reference platform\<close>

text \<open>
  The platform is not code of this repository. To say what the label set of a pull request
  is after a reconciliation, and to run the resolver on concrete events, this is a small
  platform in the terms of the specification: the pull requests it would list, the set of
  label names attached to the one issue at hand, the labels of the repository, and the log
  of the calls it received. A label is removed from the issue if it is attached (404
  otherwise), looked up in the repository (404 if it is not there), created in the
  repository, and attached to the issue.
\<close>

datatype api_call =
    PullsList jsstring jsstring
  | ListPullRequestsAssociatedWithCommit jsstring
  | PullsGet js_number
  | GetLabel jsstring
  | CreateLabel jsstring jsstring jsstring
  | RemoveLabel jsstring
  | ListLabelsOnIssue
  | AddLabels "jsstring list"

record platform =
  open_pulls :: "jsstring \<Rightarrow> pull list"
  commit_pulls :: "jsstring \<Rightarrow> pull list"
  pull_by_number :: "js_number \<Rightarrow> pull option"
  issue_labels :: "jsstring list"
  repo_labels :: "jsstring list"
  calls :: "api_call list"

definition received :: "api_call \<Rightarrow> platform \<Rightarrow> platform" where
  "received c p = p\<lparr>calls := calls p @ [c]\<rparr>"

definition not_found :: thrown where
  "not_found = ErrorObject (utf16 ''Not Found'') (Some 404) None"

definition reference_octokit :: "platform Octokit" where
  "reference_octokit =
     \<lparr>pulls_list = (\<lambda>owner repo head state p. (Inr (open_pulls p head), received (PullsList head state) p)),
      repos_listPullRequestsAssociatedWithCommit =
        (\<lambda>owner repo sha p. (Inr (commit_pulls p sha), received (ListPullRequestsAssociatedWithCommit sha) p)),
      pulls_get = (\<lambda>owner repo n p.
        (case pull_by_number p n of None \<Rightarrow> Inl not_found | Some pr \<Rightarrow> Inr pr, received (PullsGet n) p)),
      issues_getLabel = (\<lambda>owner repo name p.
        (if name \<in> set (repo_labels p) then Inr () else Inl not_found, received (GetLabel name) p)),
      issues_createLabel = (\<lambda>owner repo name color description p.
        if name \<in> set (repo_labels p)
        then (Inl (ErrorObject (utf16 ''Validation Failed'') (Some 422) None),
              received (CreateLabel name color description) p)
        else (Inr (), (received (CreateLabel name color description) p)\<lparr>repo_labels := repo_labels p @ [name]\<rparr>)),
      issues_removeLabel = (\<lambda>owner repo issue name p.
        if name \<in> set (issue_labels p)
        then (Inr (), (received (RemoveLabel name) p)\<lparr>issue_labels := removeAll name (issue_labels p)\<rparr>)
        else (Inl not_found, received (RemoveLabel name) p)),
      issues_listLabelsOnIssue = (\<lambda>owner repo issue p. (Inr (issue_labels p), received ListLabelsOnIssue p)),
      issues_addLabels = (\<lambda>owner repo issue names p.
        (Inr (), (received (AddLabels names) p)
           \<lparr>issue_labels := issue_labels p @ filter (\<lambda>n. n \<notin> set (issue_labels p)) (remdups names),
            repo_labels := repo_labels p @ filter (\<lambda>n. n \<notin> set (repo_labels p)) (remdups names)\<rparr>))\<rparr>"

section \<open>Example inputs\<close>

text \<open>
  A runner on Linux with the token input set and every other input left empty, for a given
  event; and a platform with no pull requests and no labels.
\<close>

definition example_context :: "jsstring \<Rightarrow> pull_request_payload option \<Rightarrow> workflow_run_payload option
    \<Rightarrow> action_context" where
  "example_context event pr wr =
     \<lparr>getInput = (\<lambda>name. if name = utf16 ''github-token'' then utf16 ''token'' else []),
      isDebug = False,
      eventName = event,
      payload_pull_request = pr,
      payload_workflow_run = wr,
      context_owner = utf16 ''rust-lang'',
      context_repo = utf16 ''libc'',
      process_env = [(utf16 ''GITHUB_WORKSPACE'', utf16 ''/work'')],
      process_cwd = utf16 ''/work'',
      os_platform = utf16 ''linux'',
      os_arch = utf16 ''x64'',
      os_tmpdir = utf16 ''/tmp'',
      os_homedir = utf16 ''/home/runner'',
      path_join = (\<lambda>parts. join parts (utf16 ''/''))\<rparr>"

definition example_run :: "jsstring option \<Rightarrow> pull list \<Rightarrow> jsstring option \<Rightarrow> workflow_run_payload" where
  "example_run concl prs sha =
     \<lparr>run_id = Some 42, conclusion = concl, pull_requests = Some prs,
      head_repository = Some \<lparr>head_owner = Some \<lparr>owner_login = Some (utf16 ''fork''), owner_name = None\<rparr>,
        full_name = Some (utf16 ''fork/libc''), repo_name = Some (utf16 ''libc'')\<rparr>,
      head_branch = Some (utf16 ''topic''), head_sha = sha\<rparr>"

definition empty_platform :: platform where
  "empty_platform =
     \<lparr>open_pulls = (\<lambda>head. []), commit_pulls = (\<lambda>sha. []), pull_by_number = (\<lambda>n. None),
      issue_labels = [], repo_labels = [], calls = []\<rparr>"

text \<open>
  A machine whose release host answers every download with status 503 and every other
  operation succeeds; its state counts the requests made to the network. A platform call
  that fails with status 502 until it has been made \<open>k\<close> times; its state counts the calls.
\<close>

definition offline_system :: "nat system" where
  "offline_system =
     \<lparr>spawnSync = (\<lambda>command args options n.
        (\<lparr>status = Some 0, stdout = utf16 ''cargo 1.80.0'', stderr = [], error = None\<rparr>, n)),
      httpsGet = (\<lambda>url n. (Inl (Error (utf16 ''HTTP 503 for '' @ url)), Suc n)),
      getLatestVersion = (\<lambda>n. (Inl (Error (utf16 ''Failed to determine latest version'')), Suc n)),
      mkdtempSync = (\<lambda>prefix n. (Inr (prefix @ utf16 ''XXXXXX''), n)),
      writeFileSync = (\<lambda>file content n. (Inr (), n)),
      existsSync = (\<lambda>file n. True),
      mkdirSync = (\<lambda>dir n. (Inr (), n)),
      copyFileSync = (\<lambda>src dest n. (Inr (), n)),
      chmodSync = (\<lambda>file mode n. (Inr (), n)),
      rmSync = (\<lambda>file n. (Inr (), n))\<rparr>"

definition flaky_hook :: "nat \<Rightarrow> (nat, unit) hook" where
  "flaky_hook k n = (if n < k then Inl (ErrorObject (utf16 ''Bad Gateway'') (Some 502) None) else Inr (), Suc n)"

text \<open>
  A machine on which every operation succeeds and changes nothing; an error as Node raises
  it for a write to a closed pipe; a client whose fetch of a pull request fails with it; and
  a stream whose \<open>write\<close> throws it.
\<close>

definition idle_system :: "'x system" where
  "idle_system =
     \<lparr>spawnSync = (\<lambda>command args options x. (\<lparr>status = Some 0, stdout = [], stderr = [], error = None\<rparr>, x)),
      httpsGet = (\<lambda>url x. (Inr [], x)),
      getLatestVersion = (\<lambda>x. (Inr (utf16 ''0.40.0''), x)),
      mkdtempSync = (\<lambda>prefix x. (Inr (prefix @ utf16 ''XXXXXX''), x)),
      writeFileSync = (\<lambda>file content x. (Inr (), x)),
      existsSync = (\<lambda>file x. True),
      mkdirSync = (\<lambda>dir x. (Inr (), x)),
      copyFileSync = (\<lambda>src dest x. (Inr (), x)),
      chmodSync = (\<lambda>file mode x. (Inr (), x)),
      rmSync = (\<lambda>file x. (Inr (), x))\<rparr>"

definition write_EPIPE :: thrown where
  "write_EPIPE = ErrorObject (utf16 ''write EPIPE'') None (Some (utf16 ''EPIPE''))"

definition broken_pipe_octokit :: "platform Octokit" where
  "broken_pipe_octokit = reference_octokit\<lparr>pulls_get := (\<lambda>owner repo n p. (Inl write_EPIPE, received (PullsGet n) p))\<rparr>"

definition closed_pipe :: "unit WriteStream" where
  "closed_pipe =
     \<lparr>destroyed = (\<lambda>x. False), writableEnded = (\<lambda>x. False), writable = (\<lambda>x. True),
      originalWrite = (\<lambda>chunk x. (Inl write_EPIPE, x))\<rparr>"


text \<open>
  A client that is behind the platform: every label it is asked to remove is gone already
  and the label it looks up is not there yet, both answered with 404. And a client for which
  the issue does not exist: the listing of its labels is answered with 404.
\<close>

definition stale_octokit :: "platform Octokit" where
  "stale_octokit = reference_octokit
     \<lparr>issues_getLabel := (\<lambda>owner repo name p. (Inl not_found, received (GetLabel name) p)),
      issues_createLabel := (\<lambda>owner repo name color description p.
        (Inr (), received (CreateLabel name color description) p)),
      issues_removeLabel := (\<lambda>owner repo issue name p. (Inl not_found, received (RemoveLabel name) p))\<rparr>"

definition unknown_issue_octokit :: "platform Octokit" where
  "unknown_issue_octokit = reference_octokit
     \<lparr>issues_listLabelsOnIssue := (\<lambda>owner repo issue p. (Inl not_found, received ListLabelsOnIssue p))\<rparr>"

section \<open>Auxiliary definitions for the proofs\<close>

fun escape_rest :: "jsstring \<Rightarrow> jsstring option" where
  "escape_rest (a # b # t) =
     (if a = 27 \<and> b = 91
      then (case dropWhile digit_or_semicolon t of
              [] \<Rightarrow> None
            | c # r \<Rightarrow> if c = 109 then Some r else None)
      else None)"
| "escape_rest _ = None"

fun severity_at :: "jsstring \<Rightarrow> SemverType option" where
  "severity_at s =
     (if starts_with True (phrase major) s then Some major
      else if starts_with True (phrase minor) s then Some minor
      else if starts_with True (phrase patch) s then Some patch
      else None)"

fun compatible :: "bool \<Rightarrow> jsstring \<Rightarrow> jsstring \<Rightarrow> bool" where
  "compatible ic [] q = True"
| "compatible ic (a # p) [] = True"
| "compatible ic (a # p) (b # q) = (Canonicalize ic a = Canonicalize ic b \<and> compatible ic p q)"

definition success_word :: "jsstring \<Rightarrow> bool" where
  "success_word u = (starts_with True (utf16 ''semver'') u \<or> starts_with True (utf16 ''public'') u
     \<or> starts_with True (utf16 ''api'') u)"

definition success_at :: "jsstring \<Rightarrow> bool" where
  "success_at s = (starts_with True (utf16 ''no'') s
     \<and> (case drop 2 s of [] \<Rightarrow> False
         | x # xs \<Rightarrow> isWhiteSpace x \<and> success_word (dropWhile isWhiteSpace xs)))"

definition removal_step :: "jsstring \<Rightarrow> platform world \<Rightarrow> platform world" where
  "removal_step l w =
     (emit (Info (utf16 ''Removing old label: '' @ l)) w)
       \<lparr>ext := (received (RemoveLabel l) (ext w))\<lparr>issue_labels := removeAll l (issue_labels (ext w))\<rparr>\<rparr>"

definition trace_blind :: "('x, 'a) io \<Rightarrow> bool" where
  "trace_blind m = (\<forall>w w'. ext w = ext w' \<longrightarrow> outcome (m w) = outcome (m w'))"

text \<open>
  An operation that reports no failure: whatever the world, it only appends to the trace,
  and nothing it appends is a \<open>SetFailed\<close>.
\<close>

fun is_SetFailed :: "event \<Rightarrow> bool" where
  "is_SetFailed (SetFailed message) = True"
| "is_SetFailed _ = False"

definition reports_no_failure :: "('x, 'a) io \<Rightarrow> bool" where
  "reports_no_failure m = (\<forall>w. \<exists>evs. trace (snd (m w)) = trace w @ evs \<and> (\<forall>e\<in>set evs. \<not> is_SetFailed e))"




text \<open>
  A client on which, whatever the state of the platform, a removal of a label from the issue
  fails with status 404 or not at all; and one on which the lookup of a label does.
\<close>

definition removal_fails_only_404 :: "'x Octokit \<Rightarrow> jsstring \<Rightarrow> jsstring \<Rightarrow> js_number \<Rightarrow> bool" where
  "removal_fails_only_404 octokit owner repo issueNumber =
     (\<forall>name x. case fst (issues_removeLabel octokit owner repo issueNumber name x) of
                  Inr u \<Rightarrow> True | Inl e \<Rightarrow> is_404 e)"

definition lookup_fails_only_404 :: "'x Octokit \<Rightarrow> jsstring \<Rightarrow> jsstring \<Rightarrow> jsstring \<Rightarrow> bool" where
  "lookup_fails_only_404 octokit owner repo name =
     (\<forall>x. case fst (issues_getLabel octokit owner repo name x) of Inr u \<Rightarrow> True | Inl e \<Rightarrow> is_404 e)"

section \<open>The patterns, compiled\<close>

lemma matcher_Lit:
  "matcher ic (Lit p) (s, caps) =
     (if starts_with ic (utf16 p) s then [(drop (length p) s, caps)] else [])"
proof (induction p arbitrary: s)
  case Nil
  then show ?case by (simp add: Lit_def utf16_def)
next
  case (Cons c p)
  have unfold: "Lit (c # p) = Seq (Chr (of_char c)) (Lit p)"
    by (simp add: Lit_def)
  show ?case
  proof (cases s)
    case Nil
    then show ?thesis by (simp add: unfold utf16_def)
  next
    case (Cons x xs)
    with Cons.IH [of xs] show ?thesis
      by (simp add: unfold utf16_def)
  qed
qed

lemma matcher_Star_Cls:
  "matcher ic (Star (Cls P)) (s, caps) =
     (case s of [] \<Rightarrow> [([], caps)]
      | x # xs \<Rightarrow> (if P x then matcher ic (Star (Cls P)) (xs, caps) else []) @ [(x # xs, caps)])"
  by (cases s) simp_all

lemma star_cls_then:
  assumes "\<And>x xs caps. P x \<Longrightarrow> matcher ic r (x # xs, caps) = []"
  shows "concat (map (matcher ic r) (matcher ic (Star (Cls P)) (s, caps)))
           = matcher ic r (dropWhile P s, caps)"
proof (induction s)
  case Nil
  then show ?case by simp
next
  case (Cons x xs)
  show ?case
  proof (cases "P x")
    case True
    with Cons assms [of x xs caps] show ?thesis
      by (subst matcher_Star_Cls) simp
  next
    case False
    then show ?thesis
      by (subst matcher_Star_Cls) simp
  qed
qed

lemma matcher_ANSI:
  "matcher False ANSI_ESCAPE_REGEX (s, caps) =
     (case escape_rest s of None \<Rightarrow> [] | Some r \<Rightarrow> [(r, caps)])"
proof -
  have m: "\<And>x xs caps. digit_or_semicolon x \<Longrightarrow> matcher False (Lit ''m'') (x # xs, caps) = []"
    by (auto simp: matcher_Lit utf16_def digit_or_semicolon_def Canonicalize_def)
  have tail: "\<And>t. concat (map (matcher False (Lit ''m'')) (matcher False (Star (Cls digit_or_semicolon)) (t, caps)))
      = matcher False (Lit ''m'') (dropWhile digit_or_semicolon t, caps)"
    by (rule star_cls_then) (rule m)
  have lit_m: "\<And>d. matcher False (Lit ''m'') (d, caps) =
      (case d of [] \<Rightarrow> [] | c # r \<Rightarrow> if c = 109 then [(r, caps)] else [])"
    by (simp add: matcher_Lit utf16_def Canonicalize_def split: list.splits)
  show ?thesis
  proof (cases s)
    case Nil
    then show ?thesis by (simp add: ANSI_ESCAPE_REGEX_def)
  next
    case (Cons a s')
    show ?thesis
    proof (cases s')
      case Nil
      with Cons show ?thesis
        by (simp add: ANSI_ESCAPE_REGEX_def matcher_Lit utf16_def Canonicalize_def ANSI_ESCAPE_def)
    next
      case (Cons b t)
      have "matcher False ANSI_ESCAPE_REGEX (a # b # t, caps) =
              (if a = 27 \<and> b = 91
               then concat (map (matcher False (Lit ''m'')) (matcher False (Star (Cls digit_or_semicolon)) (t, caps)))
               else [])"
        by (simp add: ANSI_ESCAPE_REGEX_def matcher_Lit utf16_def Canonicalize_def ANSI_ESCAPE_def
              del: matcher.simps(6))
      also have "\<dots> = (if a = 27 \<and> b = 91
               then matcher False (Lit ''m'') (dropWhile digit_or_semicolon t, caps) else [])"
        by (simp only: tail)
      also have "\<dots> = (case escape_rest (a # b # t) of None \<Rightarrow> [] | Some r \<Rightarrow> [(r, caps)])"
        by (simp add: lit_m del: dropWhile_eq_Nil_conv split: list.splits)
      finally show ?thesis
        using Cons \<open>s = a # s'\<close> by simp
    qed
  qed
qed

lemma escape_rest_suffix:
  "escape_rest s = Some r \<Longrightarrow> \<exists>e. s = e @ r \<and> e \<noteq> []"
proof (induction s rule: escape_rest.induct)
  case (1 a b t)
  then obtain c where d: "dropWhile digit_or_semicolon t = c # r"
    by (auto split: if_splits list.splits)
  have "t = takeWhile digit_or_semicolon t @ c # r"
    using d takeWhile_dropWhile_id [of digit_or_semicolon t] by simp
  then have "a # b # t = (a # b # takeWhile digit_or_semicolon t @ [c]) @ r"
    by simp
  then show ?case by blast
qed simp_all

lemma escape_rest_shorter: "escape_rest s = Some r \<Longrightarrow> length r < length s"
  by (drule escape_rest_suffix) auto

lemma stripAnsi_Nil [simp]: "stripAnsi [] = []"
  by (simp add: stripAnsi_def)

lemma stripAnsi_Cons:
  "stripAnsi (x # xs) =
     (case escape_rest (x # xs) of None \<Rightarrow> x # stripAnsi xs | Some r \<Rightarrow> stripAnsi r)"
  using escape_rest_shorter [of "x # xs"]
  by (auto simp: stripAnsi_def matcher_ANSI split: option.splits)

section \<open>Stripping and inserted escape sequences\<close>

lemma escape_rest_Some_iff:
  "escape_rest s = Some r \<longleftrightarrow>
     (\<exists>ps. s = 27 # 91 # ps @ 109 # r \<and> (\<forall>c\<in>set ps. digit_or_semicolon c))"
proof
  assume "escape_rest s = Some r"
  then show "\<exists>ps. s = 27 # 91 # ps @ 109 # r \<and> (\<forall>c\<in>set ps. digit_or_semicolon c)"
  proof (induction s rule: escape_rest.induct)
    case (1 a b t)
    then have ab: "a = 27" "b = 91" and d: "dropWhile digit_or_semicolon t = 109 # r"
      by (auto split: if_splits list.splits)
    have "t = takeWhile digit_or_semicolon t @ 109 # r"
      using d takeWhile_dropWhile_id [of digit_or_semicolon t] by simp
    moreover have "\<forall>c\<in>set (takeWhile digit_or_semicolon t). digit_or_semicolon c"
      by (auto dest: set_takeWhileD)
    ultimately show ?case using ab by blast
  qed simp_all
next
  assume "\<exists>ps. s = 27 # 91 # ps @ 109 # r \<and> (\<forall>c\<in>set ps. digit_or_semicolon c)"
  then obtain ps where s: "s = 27 # 91 # ps @ 109 # r" and ps: "\<forall>c\<in>set ps. digit_or_semicolon c"
    by blast
  have "dropWhile digit_or_semicolon (ps @ 109 # r) = 109 # r"
    using ps by (simp add: digit_or_semicolon_def)
  then show "escape_rest s = Some r"
    by (simp add: s)
qed

lemma is_escape_iff: "is_escape e \<longleftrightarrow> escape_rest e = Some []"
  by (cases "escape_rest e") (simp_all add: is_escape_def matcher_ANSI)

lemma is_escape_shape:
  "is_escape e \<longleftrightarrow> (\<exists>ps. e = 27 # 91 # ps @ [109] \<and> (\<forall>c\<in>set ps. digit_or_semicolon c))"
  by (simp add: is_escape_iff escape_rest_Some_iff)

lemma inside_escape_iff:
  "inside_escape a b \<longleftrightarrow>
     (\<exists>a1 a2 b1 b2. a = a1 @ a2 \<and> b = b1 @ b2 \<and> a2 \<noteq> [] \<and> b1 \<noteq> [] \<and> is_escape (a2 @ b1))"
proof
  assume "inside_escape a b"
  then obtain a2 b1 where "suffix a2 a" "prefix b1 b" "a2 \<noteq> []" "b1 \<noteq> []" "is_escape (a2 @ b1)"
    unfolding inside_escape_def Bex_def in_set_suffixes in_set_prefixes by blast
  moreover from this obtain a1 b2 where "a = a1 @ a2" "b = b1 @ b2"
    unfolding suffix_def prefix_def by blast
  ultimately show "\<exists>a1 a2 b1 b2. a = a1 @ a2 \<and> b = b1 @ b2 \<and> a2 \<noteq> [] \<and> b1 \<noteq> [] \<and> is_escape (a2 @ b1)"
    by blast
next
  assume "\<exists>a1 a2 b1 b2. a = a1 @ a2 \<and> b = b1 @ b2 \<and> a2 \<noteq> [] \<and> b1 \<noteq> [] \<and> is_escape (a2 @ b1)"
  then obtain a1 a2 b1 b2 where *: "a = a1 @ a2" "b = b1 @ b2" "a2 \<noteq> []" "b1 \<noteq> []" "is_escape (a2 @ b1)"
    by blast
  then have "suffix a2 a" "prefix b1 b"
    by (simp_all add: suffix_def prefix_def)
  with * show "inside_escape a b"
    unfolding inside_escape_def Bex_def in_set_suffixes in_set_prefixes by blast
qed

lemma dropWhile_before_escape:
  assumes "is_escape e"
  shows "dropWhile digit_or_semicolon (t @ e @ b) =
           (if \<forall>c\<in>set t. digit_or_semicolon c then e @ b else dropWhile digit_or_semicolon t @ e @ b)"
proof -
  from assms obtain ps where "e = 27 # 91 # ps @ [109]"
    unfolding is_escape_shape by blast
  then have "dropWhile digit_or_semicolon (e @ b) = e @ b"
    by (simp add: digit_or_semicolon_def)
  then show ?thesis
    by (simp add: dropWhile_append)
qed

lemma escape_rest_before_escape:
  assumes e: "is_escape e" and a: "a \<noteq> []"
  shows "escape_rest (a @ e @ b) = map_option (\<lambda>r. r @ e @ b) (escape_rest a)"
proof -
  from e obtain ps where es: "e = 27 # 91 # ps @ [109]"
    unfolding is_escape_shape by blast
  show ?thesis
  proof (cases a)
    case Nil
    with a show ?thesis by simp
  next
    case (Cons x a')
    show ?thesis
    proof (cases a')
      case Nil
      with Cons es show ?thesis by simp
    next
      case (Cons y t)
      show ?thesis
      proof (cases "\<forall>c\<in>set t. digit_or_semicolon c")
        case True
        then have "dropWhile digit_or_semicolon t = []" by simp
        with True \<open>a = x # a'\<close> Cons dropWhile_before_escape [OF e, of t b] es show ?thesis
          by (simp del: dropWhile_eq_Nil_conv)
      next
        case False
        then have "dropWhile digit_or_semicolon t \<noteq> []" by simp
        then obtain c r where "dropWhile digit_or_semicolon t = c # r"
          by (cases "dropWhile digit_or_semicolon t") auto
        with False \<open>a = x # a'\<close> Cons dropWhile_before_escape [OF e, of t b] show ?thesis
          by auto
      qed
    qed
  qed
qed

lemma escape_rest_append_outside:
  assumes out: "\<not> inside_escape a b" and a: "a \<noteq> []"
  shows "escape_rest (a @ b) = map_option (\<lambda>r. r @ b) (escape_rest a)"
proof (cases "escape_rest a")
  case (Some r)
  then obtain ps where "a = 27 # 91 # ps @ 109 # r" "\<forall>c\<in>set ps. digit_or_semicolon c"
    unfolding escape_rest_Some_iff by blast
  then have "\<exists>ps'. a @ b = 27 # 91 # ps' @ 109 # (r @ b) \<and> (\<forall>c\<in>set ps'. digit_or_semicolon c)"
    by (intro exI [of _ ps]) simp
  then have "escape_rest (a @ b) = Some (r @ b)"
    by (simp only: escape_rest_Some_iff)
  with Some show ?thesis by simp
next
  case None
  have "escape_rest (a @ b) = None"
  proof (rule ccontr)
    assume "escape_rest (a @ b) \<noteq> None"
    then obtain r where "escape_rest (a @ b) = Some r" by auto
    then obtain ps where ab: "a @ b = 27 # 91 # ps @ 109 # r" and ps: "\<forall>c\<in>set ps. digit_or_semicolon c"
      unfolding escape_rest_Some_iff by blast
    let ?m = "27 # 91 # ps @ [109]"
    have m: "is_escape ?m"
      unfolding is_escape_shape using ps by blast
    from ab have "a @ b = ?m @ r" by simp
    then obtain us where us: "a = ?m @ us \<and> us @ b = r \<or> a @ us = ?m \<and> b = us @ r"
      unfolding append_eq_append_conv2 by blast
    have "(\<exists>u. a = ?m @ u) \<or> (\<exists>u. ?m = a @ u \<and> u \<noteq> [] \<and> b = u @ r)"
    proof (cases "us = []")
      case True
      with us have "a = ?m @ []" by auto
      then show ?thesis by blast
    next
      case False
      with us show ?thesis by auto
    qed
    then consider (within) u where "a = ?m @ u" | (across) u where "?m = a @ u" "u \<noteq> []" "b = u @ r"
      by blast
    then show False
    proof cases
      case within
      then have "\<exists>ps'. a = 27 # 91 # ps' @ 109 # u \<and> (\<forall>c\<in>set ps'. digit_or_semicolon c)"
        using ps by (intro exI [of _ ps]) simp
      then have "escape_rest a = Some u"
        by (simp only: escape_rest_Some_iff)
      with None show False by simp
    next
      case across
      with m a have "inside_escape a b"
        unfolding inside_escape_iff
        by (intro exI [of _ "[]"] exI [of _ a] exI [of _ u] exI [of _ r]) simp
      with out show False by simp
    qed
  qed
  with None show ?thesis by simp
qed

lemma inside_escape_suffix:
  "\<not> inside_escape (u @ a) b \<Longrightarrow> \<not> inside_escape a b"
proof (rule contrapos_nn)
  assume "inside_escape a b"
  then obtain a1 a2 b1 b2 where *: "a = a1 @ a2" "b = b1 @ b2" "a2 \<noteq> []" "b1 \<noteq> []" "is_escape (a2 @ b1)"
    unfolding inside_escape_iff by blast
  then have "u @ a = (u @ a1) @ a2" by simp
  with * show "inside_escape (u @ a) b"
    unfolding inside_escape_iff by blast
qed

lemma stripAnsi_escape_prefix:
  assumes "is_escape e"
  shows "stripAnsi (e @ b) = stripAnsi b"
proof -
  from assms obtain ps where ps: "e = 27 # 91 # ps @ [109]" "\<forall>c\<in>set ps. digit_or_semicolon c"
    unfolding is_escape_shape by blast
  then have "\<exists>ps'. e @ b = 27 # 91 # ps' @ 109 # b \<and> (\<forall>c\<in>set ps'. digit_or_semicolon c)"
    by (intro exI [of _ ps]) simp
  then have r: "escape_rest (e @ b) = Some b"
    by (simp only: escape_rest_Some_iff)
  from ps obtain x xs where "e = x # xs"
    by simp
  with r show ?thesis
    by (simp add: stripAnsi_Cons)
qed

lemma stripAnsi_insert:
  assumes e: "is_escape e"
  shows "\<not> inside_escape a b \<Longrightarrow> stripAnsi (a @ e @ b) = stripAnsi (a @ b)"
proof (induction a rule: length_induct)
  case (1 a)
  show ?case
  proof (cases a)
    case Nil
    then show ?thesis by (simp add: stripAnsi_escape_prefix [OF e])
  next
    case (Cons x a')
    then have ne: "a \<noteq> []" by simp
    have with_e: "escape_rest (a @ e @ b) = map_option (\<lambda>r. r @ e @ b) (escape_rest a)"
      by (rule escape_rest_before_escape [OF e ne])
    have without: "escape_rest (a @ b) = map_option (\<lambda>r. r @ b) (escape_rest a)"
      by (rule escape_rest_append_outside [OF "1.prems" ne])
    show ?thesis
    proof (cases "escape_rest a")
      case None
      have "\<not> inside_escape a' b"
        using "1.prems" Cons inside_escape_suffix [of "[x]" a' b] by simp
      then have "stripAnsi (a' @ e @ b) = stripAnsi (a' @ b)"
        using "1.IH" Cons by simp
      with None with_e without Cons show ?thesis
        by (simp add: stripAnsi_Cons)
    next
      case (Some r)
      then obtain m where m: "a = m @ r" "m \<noteq> []"
        using escape_rest_suffix by blast
      then have "\<not> inside_escape r b"
        using "1.prems" inside_escape_suffix by blast
      moreover have "length r < length a"
        using m by simp
      ultimately have "stripAnsi (r @ e @ b) = stripAnsi (r @ b)"
        using "1.IH" by blast
      with Some with_e without Cons show ?thesis
        by (simp add: stripAnsi_Cons)
    qed
  qed
qed

lemma is_escape_no_newline:
  assumes "is_escape m"
  shows "10 \<notin> set m"
proof -
  from assms obtain ps where "m = 27 # 91 # ps @ [109]" "\<forall>c\<in>set ps. digit_or_semicolon c"
    unfolding is_escape_shape by blast
  then show ?thesis
    by (auto simp: digit_or_semicolon_def)
qed

lemma inside_escape_before_newline:
  assumes "inside_escape a (b @ 10 # z)"
  shows "inside_escape a b"
proof -
  from assms obtain a1 a2 b1 b2 where
    *: "a = a1 @ a2" "b @ 10 # z = b1 @ b2" "a2 \<noteq> []" "b1 \<noteq> []" "is_escape (a2 @ b1)"
    unfolding inside_escape_iff by blast
  then have nl: "10 \<notin> set b1"
    using is_escape_no_newline by fastforce
  from *(2) obtain us where us: "b = b1 @ us \<and> us @ 10 # z = b2 \<or> b @ us = b1 \<and> 10 # z = us @ b2"
    unfolding append_eq_append_conv2 by blast
  have "\<exists>b2'. b = b1 @ b2'"
  proof (cases us)
    case Nil
    with us show ?thesis by auto
  next
    case (Cons u us')
    with us nl show ?thesis by auto
  qed
  with * show ?thesis
    unfolding inside_escape_iff by blast
qed

lemma inside_escape_after_newline:
  assumes "inside_escape (z @ 10 # a) b"
  shows "inside_escape a b"
proof -
  from assms obtain a1 a2 b1 b2 where
    *: "z @ 10 # a = a1 @ a2" "b = b1 @ b2" "a2 \<noteq> []" "b1 \<noteq> []" "is_escape (a2 @ b1)"
    unfolding inside_escape_iff by blast
  then have nl: "10 \<notin> set a2"
    using is_escape_no_newline by fastforce
  from *(1) obtain us where us: "z = a1 @ us \<and> us @ 10 # a = a2 \<or> z @ us = a1 \<and> 10 # a = us @ a2"
    unfolding append_eq_append_conv2 by blast
  have "\<exists>a1'. a = a1' @ a2"
  proof (cases us)
    case Nil
    with us nl show ?thesis by auto
  next
    case (Cons u us')
    with us nl show ?thesis by auto
  qed
  with * show ?thesis
    unfolding inside_escape_iff by blast
qed

lemma stripAnsi_escaped_stdout:
  "escaped_from x y \<Longrightarrow> stripAnsi (y @ 10 # z) = stripAnsi (x @ 10 # z)"
proof (induction rule: escaped_from.induct)
  case (same x)
  show ?case by simp
next
  case (insert x a b e)
  have "\<not> inside_escape a (b @ 10 # z)"
    using insert.hyps(3) inside_escape_before_newline by blast
  then have "stripAnsi (a @ e @ (b @ 10 # z)) = stripAnsi (a @ (b @ 10 # z))"
    by (rule stripAnsi_insert [OF insert.hyps(2)])
  with insert.IH show ?case by simp
qed

lemma stripAnsi_escaped_stderr:
  "escaped_from x y \<Longrightarrow> stripAnsi (z @ 10 # y) = stripAnsi (z @ 10 # x)"
proof (induction rule: escaped_from.induct)
  case (same x)
  show ?case by simp
next
  case (insert x a b e)
  have "\<not> inside_escape (z @ 10 # a) b"
    using insert.hyps(3) inside_escape_after_newline by blast
  then have "stripAnsi ((z @ 10 # a) @ e @ b) = stripAnsi ((z @ 10 # a) @ b)"
    by (rule stripAnsi_insert [OF insert.hyps(2)])
  with insert.IH show ?case by simp
qed

lemma combined_output_escaped:
  assumes "escaped_from (stdout r) (stdout r')" and "escaped_from (stderr r) (stderr r')"
  shows "combined_output r' = combined_output r"
proof -
  have "stripAnsi (stdout r' @ 10 # stderr r') = stripAnsi (stdout r @ 10 # stderr r')"
    by (rule stripAnsi_escaped_stdout [OF assms(1)])
  also have "\<dots> = stripAnsi (stdout r @ 10 # stderr r)"
    by (rule stripAnsi_escaped_stderr [OF assms(2)])
  finally show ?thesis
    by (simp add: combined_output_def utf16_def)
qed

lemma determineSemverType_cong:
  "status r' = status r \<Longrightarrow> combined_output r' = combined_output r
   \<Longrightarrow> determineSemverType r' w = determineSemverType r w"
  by (simp add: determineSemverType_def Let_def split: sum.splits)

lemmas eval_defs = ANSI_ESCAPE_REGEX_def SEMVER_REGEX_def SUCCESS_REGEX_def Lit_def Plus_def utf16_def
  Canonicalize_def digit_or_semicolon_def isWhiteSpace_def ANSI_ESCAPE_def stripAnsi_def trim_def
  toLowerCase_def extractRequiredUpdatesFromText_def combined_output_def determineSemverType_def
  Set_add_def emit_def Error_def is_escape_def inside_escape_def

text \<open>
  C8, amended. Escape sequences inserted into stdout and stderr, none of them into the
  middle of an escape sequence already there, do not change what \<open>determineSemverType\<close>
  returns, throws or logs.
\<close>

theorem escaped_output_same_classification:
  assumes "status r' = status r"
    and "escaped_from (stdout r) (stdout r')"
    and "escaped_from (stderr r) (stderr r')"
  shows "determineSemverType r' w = determineSemverType r w"
  using assms by (intro determineSemverType_cong combined_output_escaped)

theorem escaped_output_same_classification_witness:
  "status \<lparr>status = Some 1, stdout = (27 # utf16 ''[31m'') @ utf16 ''semver requires new major version'' @ (27 # utf16 ''[0m''),
      stderr = [], error = None\<rparr>
     = status \<lparr>status = Some 1, stdout = utf16 ''semver requires new major version'', stderr = [], error = None\<rparr>
   \<and> escaped_from (utf16 ''semver requires new major version'')
        ((27 # utf16 ''[31m'') @ utf16 ''semver requires new major version'' @ (27 # utf16 ''[0m''))
   \<and> escaped_from [] []
   \<and> determineSemverType
        \<lparr>status = Some 1, stdout = (27 # utf16 ''[31m'') @ utf16 ''semver requires new major version'' @ (27 # utf16 ''[0m''),
         stderr = [], error = None\<rparr> \<lparr>trace = [], ext = ()\<rparr>
      = determineSemverType
        \<lparr>status = Some 1, stdout = utf16 ''semver requires new major version'', stderr = [], error = None\<rparr>
        \<lparr>trace = [], ext = ()\<rparr>"
proof -
  let ?x = "utf16 ''semver requires new major version''"
  let ?e1 = "27 # utf16 ''[31m''"
  let ?e2 = "27 # utf16 ''[0m''"
  have e1: "is_escape ?e1" and e2: "is_escape ?e2"
    by (simp_all add: eval_defs)
  have s0: "escaped_from ?x (?x @ [])"
    by (simp add: escaped_from.same)
  have o0: "\<not> inside_escape ?x []"
    by (simp add: inside_escape_def)
  have "escaped_from ?x (?x @ ?e2 @ [])"
    by (rule escaped_from.insert [OF s0 e2 o0])
  then have s1: "escaped_from ?x ([] @ ?x @ ?e2)"
    by simp
  have o1: "\<not> inside_escape [] (?x @ ?e2)"
    by (simp add: inside_escape_def)
  have out: "escaped_from ?x ([] @ ?e1 @ (?x @ ?e2))"
    by (rule escaped_from.insert [OF s1 e1 o1])
  have err: "escaped_from ([]::jsstring) []"
    by (rule escaped_from.same)
  show ?thesis
    using out err
      escaped_output_same_classification [of
        "\<lparr>status = Some 1, stdout = ?e1 @ ?x @ ?e2, stderr = [], error = None\<rparr>"
        "\<lparr>status = Some 1, stdout = ?x, stderr = [], error = None\<rparr>"
        "\<lparr>trace = [], ext = ()\<rparr>"]
    by simp
qed

text \<open>
  C8 as stated fails: with \<open>ESC[31m\<close> inserted into the middle of the escape sequence of
  \<open>noESC[0m semver\<close>, one pass of the pattern leaves \<open>ESC[0m\<close> behind, the success phrase is
  no longer found, and the classifier throws where it returned \<open>patch\<close>.
\<close>

theorem escape_inside_escape_counterexample:
  "is_escape (27 # utf16 ''[31m'')
   \<and> fst (determineSemverType
        \<lparr>status = Some 1, stdout = (utf16 ''no'' @ 27 # utf16 ''['') @ utf16 ''0m semver'', stderr = [], error = None\<rparr>
        \<lparr>trace = [], ext = ()\<rparr>) = Inr patch
   \<and> fst (determineSemverType
        \<lparr>status = Some 1, stdout = (utf16 ''no'' @ 27 # utf16 ''['') @ (27 # utf16 ''[31m'') @ utf16 ''0m semver'',
         stderr = [], error = None\<rparr>
        \<lparr>trace = [], ext = ()\<rparr>)
       = Inl (Error (utf16 ''cargo semver-checks failed to produce parseable output:\<newline>no'' @ 27 # utf16 ''[0m semver''))"
  by (simp add: eval_defs)

section \<open>The severity scan\<close>

lemma starts_with_append:
  "starts_with ic (p @ q) s \<longleftrightarrow> starts_with ic p s \<and> starts_with ic q (drop (length p) s)"
  by (induction ic p s rule: starts_with.induct) auto

lemma starts_with_length: "starts_with ic p s \<Longrightarrow> length p \<le> length s"
  by (induction ic p s rule: starts_with.induct) auto

lemma starts_with_iff:
  "starts_with ic p s \<longleftrightarrow>
     (\<exists>w suf. s = w @ suf \<and> map (Canonicalize ic) w = map (Canonicalize ic) p)"
proof (induction ic p s rule: starts_with.induct)
  case (1 ic s)
  show ?case by simp
next
  case (2 ic p ps)
  show ?case by simp
next
  case (3 ic p ps x xs)
  show ?case
  proof
    assume "starts_with ic (p # ps) (x # xs)"
    with 3 obtain w suf where "xs = w @ suf" "map (Canonicalize ic) w = map (Canonicalize ic) ps"
      and "Canonicalize ic x = Canonicalize ic p"
      by auto
    then have "x # xs = (x # w) @ suf \<and> map (Canonicalize ic) (x # w) = map (Canonicalize ic) (p # ps)"
      by simp
    then show "\<exists>w suf. x # xs = w @ suf \<and> map (Canonicalize ic) w = map (Canonicalize ic) (p # ps)"
      by blast
  next
    assume "\<exists>w suf. x # xs = w @ suf \<and> map (Canonicalize ic) w = map (Canonicalize ic) (p # ps)"
    then obtain w suf where w: "x # xs = w @ suf" "map (Canonicalize ic) w = map (Canonicalize ic) (p # ps)"
      by blast
    then obtain y w' where "w = y # w'"
      by (cases w) auto
    with w 3 show "starts_with ic (p # ps) (x # xs)"
      by auto
  qed
qed

lemma contains_iff_drop:
  "contains ic p s \<longleftrightarrow> (\<exists>k\<le>length s. starts_with ic p (drop k s))"
proof (induction s)
  case Nil
  show ?case by simp
next
  case (Cons x xs)
  show ?case
  proof
    assume "contains ic p (x # xs)"
    then consider "starts_with ic p (x # xs)" | "contains ic p xs" by auto
    then show "\<exists>k\<le>length (x # xs). starts_with ic p (drop k (x # xs))"
    proof cases
      case 1
      then have "starts_with ic p (drop 0 (x # xs))" by simp
      then show ?thesis by blast
    next
      case 2
      with Cons obtain k where "k \<le> length xs" "starts_with ic p (drop k xs)" by blast
      then have "Suc k \<le> length (x # xs) \<and> starts_with ic p (drop (Suc k) (x # xs))" by simp
      then show ?thesis by blast
    qed
  next
    assume "\<exists>k\<le>length (x # xs). starts_with ic p (drop k (x # xs))"
    then obtain k where k: "k \<le> length (x # xs)" "starts_with ic p (drop k (x # xs))" by blast
    show "contains ic p (x # xs)"
    proof (cases k)
      case 0
      with k show ?thesis by simp
    next
      case (Suc k')
      with k have "k' \<le> length xs \<and> starts_with ic p (drop k' xs)" by simp
      with Cons show ?thesis by auto
    qed
  qed
qed

lemma contains_iff:
  "contains ic p s \<longleftrightarrow>
     (\<exists>pre w suf. s = pre @ w @ suf \<and> map (Canonicalize ic) w = map (Canonicalize ic) p)"
proof
  assume "contains ic p s"
  then obtain k where "k \<le> length s" "starts_with ic p (drop k s)"
    unfolding contains_iff_drop by blast
  then obtain w suf where "drop k s = w @ suf" "map (Canonicalize ic) w = map (Canonicalize ic) p"
    unfolding starts_with_iff by blast
  then have "s = take k s @ w @ suf \<and> map (Canonicalize ic) w = map (Canonicalize ic) p"
    by (metis append_take_drop_id)
  then show "\<exists>pre w suf. s = pre @ w @ suf \<and> map (Canonicalize ic) w = map (Canonicalize ic) p"
    by blast
next
  assume "\<exists>pre w suf. s = pre @ w @ suf \<and> map (Canonicalize ic) w = map (Canonicalize ic) p"
  then obtain pre w suf where s: "s = pre @ w @ suf" and w: "map (Canonicalize ic) w = map (Canonicalize ic) p"
    by blast
  then have "starts_with ic p (drop (length pre) s)"
    unfolding starts_with_iff by auto
  moreover have "length pre \<le> length s"
    using s by simp
  ultimately show "contains ic p s"
    unfolding contains_iff_drop by blast
qed

lemma starts_with_both:
  "starts_with ic p s \<Longrightarrow> starts_with ic q s \<Longrightarrow> compatible ic p q"
proof (induction ic p q arbitrary: s rule: compatible.induct)
  case (3 ic a p b q)
  then show ?case by (cases s) auto
qed simp_all

lemma starts_with_overlap:
  "starts_with ic p s \<Longrightarrow> starts_with ic q (drop k s) \<Longrightarrow> compatible ic q (drop k p)"
proof (induction k arbitrary: p s)
  case 0
  then show ?case using starts_with_both by auto
next
  case (Suc k)
  show ?case
  proof (cases p)
    case Nil
    then show ?thesis by (cases q) simp_all
  next
    case (Cons a p')
    with Suc.prems obtain x xs where "s = x # xs" "starts_with ic p' xs"
      by (cases s) auto
    with Suc Cons show ?thesis by auto
  qed
qed

lemma length_utf16 [simp]: "length (utf16 p) = length p"
  by (simp add: utf16_def)

lemma words_exclusive:
  "\<not> (starts_with True (utf16 ''major'') s \<and> starts_with True (utf16 ''minor'') s)"
  "\<not> (starts_with True (utf16 ''major'') s \<and> starts_with True (utf16 ''patch'') s)"
  "\<not> (starts_with True (utf16 ''minor'') s \<and> starts_with True (utf16 ''patch'') s)"
  by (auto dest: starts_with_both simp: utf16_def Canonicalize_def)

lemma matcher_severity_word:
  "matcher True (Grp (Alt (Lit ''major'') (Alt (Lit ''minor'') (Lit ''patch'')))) (s, caps) =
     (if starts_with True (utf16 ''major'') s \<or> starts_with True (utf16 ''minor'') s
         \<or> starts_with True (utf16 ''patch'') s
      then [(drop 5 s, caps @ [take 5 s])] else [])"
proof -
  have "length s - (length s - 5) = 5" if "5 \<le> length s"
    using that by simp
  then show ?thesis
    using words_exclusive [of s]
    by (auto simp: matcher_Lit eval_nat_numeral dest: starts_with_length)
qed

lemma starts_with_phrase:
  "starts_with True (phrase S) s \<longleftrightarrow>
     starts_with True (utf16 ''semver requires new '') s
     \<and> starts_with True (SemverType_string S) (drop 20 s)
     \<and> starts_with True (utf16 '' version'') (drop 25 s)"
  by (cases S) (simp_all add: phrase_def starts_with_append eval_nat_numeral)

lemma matcher_SEMVER_REGEX:
  "matcher True SEMVER_REGEX (s, []) =
     (case severity_at s of None \<Rightarrow> [] | Some S \<Rightarrow> [(drop 33 s, [take 5 (drop 20 s)])])"
proof -
  have pre: "matcher True (Lit ''semver requires new '') (s, []) =
      (if starts_with True (utf16 ''semver requires new '') s then [(drop 20 s, [])] else [])"
    by (simp add: matcher_Lit eval_nat_numeral)
  have ver: "\<And>t caps. matcher True (Lit '' version'') (t, caps) =
      (if starts_with True (utf16 '' version'') t then [(drop 8 t, caps)] else [])"
    by (simp add: matcher_Lit eval_nat_numeral)
  have "matcher True SEMVER_REGEX (s, []) =
      (if starts_with True (utf16 ''semver requires new '') s
          \<and> (starts_with True (utf16 ''major'') (drop 20 s) \<or> starts_with True (utf16 ''minor'') (drop 20 s)
               \<or> starts_with True (utf16 ''patch'') (drop 20 s))
          \<and> starts_with True (utf16 '' version'') (drop 25 s)
       then [(drop 33 s, [take 5 (drop 20 s)])] else [])"
    by (simp add: SEMVER_REGEX_def pre ver matcher_severity_word del: matcher.simps(5) matcher.simps(7))
  also have "\<dots> = (case severity_at s of None \<Rightarrow> [] | Some S \<Rightarrow> [(drop 33 s, [take 5 (drop 20 s)])])"
    by (auto simp: starts_with_phrase)
  finally show ?thesis .
qed

lemma toLowerCase_capture:
  "starts_with True p t \<Longrightarrow> \<forall>c\<in>set p. 97 \<le> c \<and> c \<le> 122 \<Longrightarrow> toLowerCase (take (length p) t) = p"
proof (induction True p t rule: starts_with.induct)
  case (3 p ps x xs)
  then have "toLowerCase (take (length ps) xs) = ps"
    by simp
  moreover have "(if 65 \<le> x \<and> x \<le> 90 then x + 32 else x) = p"
    using "3.prems" by (auto simp: Canonicalize_def split: if_splits)
  ultimately show ?case
    by (simp add: toLowerCase_def)
qed (simp_all add: toLowerCase_def)

lemma severity_at_Some: "severity_at s = Some S \<Longrightarrow> starts_with True (phrase S) s"
  by (auto split: if_splits)

lemma severity_at_None: "severity_at s = None \<Longrightarrow> \<not> starts_with True (phrase S) s"
  by (cases S) (auto split: if_splits)

lemma severity_capture:
  assumes "severity_at s = Some S"
  shows "toLowerCase (take 5 (drop 20 s)) = SemverType_string S"
proof -
  from assms have "starts_with True (SemverType_string S) (drop 20 s)"
    using severity_at_Some starts_with_phrase by blast
  moreover have "\<forall>c\<in>set (SemverType_string S). 97 \<le> c \<and> c \<le> 122"
    by (cases S) (simp_all add: utf16_def)
  ultimately have "toLowerCase (take (length (SemverType_string S)) (drop 20 s)) = SemverType_string S"
    by (rule toLowerCase_capture)
  moreover have "length (SemverType_string S) = 5"
    by (cases S) simp_all
  ultimately show ?thesis by simp
qed

lemma length_phrase: "length (phrase S) = 33"
  by (cases S) (simp_all add: phrase_def)

lemma phrases_do_not_overlap:
  "list_all (\<lambda>k. \<not> compatible True (phrase S) (drop k (phrase S0))) [1..<33]"
  by (cases S; cases S0) (simp_all add: phrase_def utf16_def Canonicalize_def upt_rec)

lemma phrases_differ:
  "compatible True (phrase S) (phrase S0) \<Longrightarrow> S = S0"
  by (cases S; cases S0) (simp_all add: phrase_def utf16_def Canonicalize_def)

lemma severity_at_only:
  assumes at: "severity_at t = Some S0" and k: "k < 33" and sw: "starts_with True (phrase S) (drop k t)"
  shows "k = 0 \<and> S = S0"
proof -
  have c: "compatible True (phrase S) (drop k (phrase S0))"
    using severity_at_Some [OF at] sw by (rule starts_with_overlap)
  have "k = 0"
  proof (rule ccontr)
    assume "k \<noteq> 0"
    with k have "k \<in> set [1..<33]" by simp
    with phrases_do_not_overlap [of S S0] have "\<not> compatible True (phrase S) (drop k (phrase S0))"
      unfolding list_all_iff by blast
    with c show False by simp
  qed
  with c phrases_differ show ?thesis by simp
qed

lemma mentions_iff_drop:
  "mentions S t \<longleftrightarrow> (\<exists>k\<le>length t. starts_with True (phrase S) (drop k t))"
  by (simp add: mentions_def contains_iff_drop)

lemma mentions_Nil: "\<not> mentions S []"
  by (cases S) (simp_all add: mentions_def phrase_def utf16_def)

lemma mentions_step:
  assumes "severity_at (x # xs) = None"
  shows "mentions S (x # xs) \<longleftrightarrow> mentions S xs"
  using severity_at_None [OF assms, of S] by (simp add: mentions_def)

lemma mentions_skip:
  assumes at: "severity_at t = Some S0"
  shows "mentions S t \<longleftrightarrow> S = S0 \<or> mentions S (drop 33 t)"
proof
  assume "mentions S t"
  then obtain k where k: "k \<le> length t" "starts_with True (phrase S) (drop k t)"
    unfolding mentions_iff_drop by blast
  show "S = S0 \<or> mentions S (drop 33 t)"
  proof (cases "k < 33")
    case True
    with at k show ?thesis using severity_at_only by blast
  next
    case False
    then have "drop k t = drop (k - 33) (drop 33 t)" by simp
    moreover have "k - 33 \<le> length (drop 33 t)" using k False by simp
    ultimately have "mentions S (drop 33 t)"
      using k unfolding mentions_iff_drop by metis
    then show ?thesis ..
  qed
next
  assume "S = S0 \<or> mentions S (drop 33 t)"
  then show "mentions S t"
  proof
    assume "S = S0"
    with severity_at_Some [OF at] have "starts_with True (phrase S) (drop 0 t)" by simp
    then show ?thesis unfolding mentions_iff_drop by blast
  next
    assume "mentions S (drop 33 t)"
    then obtain k where k: "k \<le> length (drop 33 t)" "starts_with True (phrase S) (drop k (drop 33 t))"
      unfolding mentions_iff_drop by blast
    from k(2) have "length (phrase S) \<le> length (drop k (drop 33 t))"
      by (rule starts_with_length)
    then have len: "k + 33 \<le> length t"
      by (simp add: length_phrase)
    have "k + 33 \<le> length t \<and> starts_with True (phrase S) (drop (k + 33) t)"
      using k len by (simp add: add.commute)
    then show ?thesis unfolding mentions_iff_drop by blast
  qed
qed

text \<open>The loop over the matches ends, and adds exactly the severities the text mentions.\<close>

lemma exec_loop_SEMVER_REGEX:
  "\<exists>ms. exec_loop True SEMVER_REGEX t = Some ms
     \<and> (\<forall>found. \<exists>found'. add_matches ms found = Inr found'
           \<and> set found' = set found \<union> {SemverType_string S | S. mentions S t})"
proof (induction t rule: length_induct)
  case (1 t)
  show ?case
  proof (cases t)
    case Nil
    then show ?thesis
      by (simp add: matcher_SEMVER_REGEX mentions_Nil phrase_def utf16_def)
  next
    case (Cons x xs)
    show ?thesis
    proof (cases "severity_at t")
      case None
      have "length xs < length t"
        using Cons by simp
      from "1.IH" [rule_format, OF this]
      obtain ms where ms: "exec_loop True SEMVER_REGEX xs = Some ms"
        "\<forall>found. \<exists>found'. add_matches ms found = Inr found'
           \<and> set found' = set found \<union> {SemverType_string S | S. mentions S xs}"
        by (elim exE conjE)
      have "exec_loop True SEMVER_REGEX t = Some ms"
        using None Cons ms(1) by (simp add: matcher_SEMVER_REGEX del: severity_at.simps)
      moreover have "\<And>S. mentions S t \<longleftrightarrow> mentions S xs"
        using None Cons mentions_step by blast
      ultimately show ?thesis using ms(2) by (intro exI [of _ ms]) simp
    next
      case (Some S0)
      then have "33 \<le> length t"
        using severity_at_Some starts_with_length length_phrase by metis
      then have shorter: "length (drop 33 t) < length t"
        by simp
      from "1.IH" [rule_format, OF shorter]
      obtain ms where ms: "exec_loop True SEMVER_REGEX (drop 33 t) = Some ms"
        "\<forall>found. \<exists>found'. add_matches ms found = Inr found'
           \<and> set found' = set found \<union> {SemverType_string S | S. mentions S (drop 33 t)}"
        by (elim exE conjE)
      let ?caps = "[take 5 (drop 20 t)]"
      have loop: "exec_loop True SEMVER_REGEX t = Some (?caps # ms)"
        using Some Cons ms(1) shorter by (simp add: matcher_SEMVER_REGEX del: severity_at.simps)
      have "\<exists>found'. add_matches (?caps # ms) found = Inr found'
           \<and> set found' = set found \<union> {SemverType_string S | S. mentions S t}" for found
      proof -
        from ms(2) [rule_format, of "Set_add (SemverType_string S0) found"]
        obtain found' where f: "add_matches ms (Set_add (SemverType_string S0) found) = Inr found'"
          "set found' = set (Set_add (SemverType_string S0) found)
             \<union> {SemverType_string S | S. mentions S (drop 33 t)}"
          by (elim exE conjE)
        have "set (Set_add (SemverType_string S0) found) = insert (SemverType_string S0) (set found)"
          by (auto simp: Set_add_def)
        with f(2) have "set found' = set found \<union> {SemverType_string S | S. mentions S t}"
          unfolding mentions_skip [OF Some] by auto
        with f(1) show ?thesis
          by (simp add: severity_capture [OF Some])
      qed
      with loop show ?thesis by blast
    qed
  qed
qed

lemma extractRequiredUpdatesFromText_mentions:
  "\<exists>found. extractRequiredUpdatesFromText text = Inr found
     \<and> set found = {SemverType_string S | S. mentions S (stripAnsi text)}"
proof -
  from exec_loop_SEMVER_REGEX [of "stripAnsi text"]
  obtain ms where ms: "exec_loop True SEMVER_REGEX (stripAnsi text) = Some ms"
    "\<forall>found. \<exists>found'. add_matches ms found = Inr found'
       \<and> set found' = set found \<union> {SemverType_string S | S. mentions S (stripAnsi text)}"
    by (elim exE conjE)
  from ms(2) [rule_format, of "[]"]
  obtain found' where "add_matches ms [] = Inr found'"
    "set found' = set [] \<union> {SemverType_string S | S. mentions S (stripAnsi text)}"
    by (elim exE conjE)
  with ms(1) show ?thesis
    by (simp add: extractRequiredUpdatesFromText_def)
qed

section \<open>The success pattern\<close>

lemma test_iff_drop:
  "test ic r t \<longleftrightarrow> (\<exists>k\<le>length t. matcher ic r (drop k t, []) \<noteq> [])"
proof (induction t)
  case Nil
  show ?case by simp
next
  case (Cons x xs)
  show ?case
  proof
    assume "test ic r (x # xs)"
    then consider "matcher ic r (x # xs, []) \<noteq> []" | "test ic r xs" by auto
    then show "\<exists>k\<le>length (x # xs). matcher ic r (drop k (x # xs), []) \<noteq> []"
    proof cases
      case 1
      then have "matcher ic r (drop 0 (x # xs), []) \<noteq> []" by simp
      then show ?thesis by blast
    next
      case 2
      with Cons obtain k where "k \<le> length xs" "matcher ic r (drop k xs, []) \<noteq> []" by blast
      then have "Suc k \<le> length (x # xs) \<and> matcher ic r (drop (Suc k) (x # xs), []) \<noteq> []" by simp
      then show ?thesis by blast
    qed
  next
    assume "\<exists>k\<le>length (x # xs). matcher ic r (drop k (x # xs), []) \<noteq> []"
    then obtain k where k: "k \<le> length (x # xs)" "matcher ic r (drop k (x # xs), []) \<noteq> []" by blast
    show "test ic r (x # xs)"
    proof (cases k)
      case 0
      with k show ?thesis by simp
    next
      case (Suc k')
      with k have "k' \<le> length xs \<and> matcher ic r (drop k' xs, []) \<noteq> []" by simp
      with Cons show ?thesis by auto
    qed
  qed
qed

lemma isWhiteSpace_not_letter:
  "isWhiteSpace x \<Longrightarrow> 97 \<le> p \<Longrightarrow> p \<le> 122 \<Longrightarrow> Canonicalize True x \<noteq> Canonicalize True p"
  by (auto simp: isWhiteSpace_def Canonicalize_def)

lemma success_word_not_space: "isWhiteSpace x \<Longrightarrow> \<not> success_word (x # xs)"
  using isWhiteSpace_not_letter [of x]
  by (auto simp: success_word_def utf16_def)

lemma matcher_success_word:
  "matcher True (Grp (Alt (Lit ''semver'') (Alt (Lit ''public'') (Lit ''api'')))) (u, caps) \<noteq> []
     \<longleftrightarrow> success_word u"
  by (auto simp: matcher_Lit success_word_def)

lemma matcher_SUCCESS_REGEX:
  "matcher True SUCCESS_REGEX (s, []) \<noteq> [] \<longleftrightarrow> success_at s"
proof -
  let ?G = "Grp (Alt (Lit ''semver'') (Alt (Lit ''public'') (Lit ''api'')))"
  have none: "\<And>x xs caps. isWhiteSpace x \<Longrightarrow> matcher True ?G (x # xs, caps) = []"
    using matcher_success_word success_word_not_space by blast
  have star: "\<And>xs. concat (map (matcher True ?G) (matcher True (Star (Cls isWhiteSpace)) (xs, [])))
      = matcher True ?G (dropWhile isWhiteSpace xs, [])"
    by (rule star_cls_then) (rule none)
  have plus: "matcher True (Seq (Plus (Cls isWhiteSpace)) ?G) (s1, []) =
      (case s1 of [] \<Rightarrow> [] | x # xs \<Rightarrow>
         if isWhiteSpace x then matcher True ?G (dropWhile isWhiteSpace xs, []) else [])" for s1
  proof (cases s1)
    case Nil
    then show ?thesis by (simp add: Plus_def)
  next
    case (Cons x xs)
    have "matcher True (Seq (Plus (Cls isWhiteSpace)) ?G) (x # xs, []) =
        (if isWhiteSpace x
         then concat (map (matcher True ?G) (matcher True (Star (Cls isWhiteSpace)) (xs, [])))
         else [])"
      by (simp add: Plus_def del: matcher.simps(5) matcher.simps(6) matcher.simps(7))
    with Cons show ?thesis by (simp only: star list.case)
  qed
  have no: "matcher True (Lit ''no'') (s, []) =
      (if starts_with True (utf16 ''no'') s then [(drop 2 s, [])] else [])"
    by (simp add: matcher_Lit eval_nat_numeral)
  have eq: "matcher True SUCCESS_REGEX (s, []) =
      (if starts_with True (utf16 ''no'') s
       then matcher True (Seq (Plus (Cls isWhiteSpace)) ?G) (drop 2 s, []) else [])"
    by (simp add: SUCCESS_REGEX_def no del: matcher.simps(5) matcher.simps(6) matcher.simps(7))
  show ?thesis
  proof (cases "starts_with True (utf16 ''no'') s")
    case False
    with eq show ?thesis
      by (simp add: success_at_def del: matcher.simps)
  next
    case True
    show ?thesis
    proof (cases "drop 2 s")
      case Nil
      with True eq plus [of "drop 2 s"] show ?thesis
        by (simp add: success_at_def del: matcher.simps)
    next
      case (Cons x xs)
      with True eq plus [of "drop 2 s"] matcher_success_word [of "dropWhile isWhiteSpace xs" "[]"]
      show ?thesis
        by (simp add: success_at_def del: matcher.simps)
    qed
  qed
qed

lemma success_word_iff:
  "success_word u \<longleftrightarrow>
     (\<exists>w suf. u = w @ suf \<and> (same_ignoring_case w (utf16 ''semver'')
        \<or> same_ignoring_case w (utf16 ''public'') \<or> same_ignoring_case w (utf16 ''api'')))"
  unfolding success_word_def starts_with_iff same_ignoring_case_def by blast

lemma success_at_iff:
  "success_at s \<longleftrightarrow>
     (\<exists>n ws w suf. s = n @ ws @ w @ suf \<and> same_ignoring_case n (utf16 ''no'')
        \<and> ws \<noteq> [] \<and> (\<forall>c\<in>set ws. isWhiteSpace c)
        \<and> (same_ignoring_case w (utf16 ''semver'') \<or> same_ignoring_case w (utf16 ''public'')
             \<or> same_ignoring_case w (utf16 ''api'')))"
proof
  assume "success_at s"
  then have no: "starts_with True (utf16 ''no'') s"
    and rest: "case drop 2 s of [] \<Rightarrow> False
         | x # xs \<Rightarrow> isWhiteSpace x \<and> success_word (dropWhile isWhiteSpace xs)"
    by (simp_all add: success_at_def)
  from no obtain n s1 where n: "s = n @ s1" "same_ignoring_case n (utf16 ''no'')"
    unfolding starts_with_iff same_ignoring_case_def by blast
  then have "length n = 2"
    using length_map [of "Canonicalize True" n] by (simp add: same_ignoring_case_def utf16_def)
  with n have "drop 2 s = s1" by simp
  with rest obtain x xs where s1: "s1 = x # xs" "isWhiteSpace x" "success_word (dropWhile isWhiteSpace xs)"
    by (auto split: list.splits)
  let ?ws = "x # takeWhile isWhiteSpace xs"
  from s1(3) obtain w suf where w: "dropWhile isWhiteSpace xs = w @ suf"
    "same_ignoring_case w (utf16 ''semver'') \<or> same_ignoring_case w (utf16 ''public'')
       \<or> same_ignoring_case w (utf16 ''api'')"
    unfolding success_word_iff by blast
  have "s1 = ?ws @ w @ suf"
    using s1(1) w(1) takeWhile_dropWhile_id [of isWhiteSpace xs] by simp
  moreover have "\<forall>c\<in>set ?ws. isWhiteSpace c"
    using s1(2) by (auto dest: set_takeWhileD)
  ultimately have "s = n @ ?ws @ w @ suf \<and> same_ignoring_case n (utf16 ''no'')
        \<and> ?ws \<noteq> [] \<and> (\<forall>c\<in>set ?ws. isWhiteSpace c)
        \<and> (same_ignoring_case w (utf16 ''semver'') \<or> same_ignoring_case w (utf16 ''public'')
             \<or> same_ignoring_case w (utf16 ''api''))"
    using n w(2) by simp
  then show "\<exists>n ws w suf. s = n @ ws @ w @ suf \<and> same_ignoring_case n (utf16 ''no'')
        \<and> ws \<noteq> [] \<and> (\<forall>c\<in>set ws. isWhiteSpace c)
        \<and> (same_ignoring_case w (utf16 ''semver'') \<or> same_ignoring_case w (utf16 ''public'')
             \<or> same_ignoring_case w (utf16 ''api''))"
    by blast
next
  assume "\<exists>n ws w suf. s = n @ ws @ w @ suf \<and> same_ignoring_case n (utf16 ''no'')
        \<and> ws \<noteq> [] \<and> (\<forall>c\<in>set ws. isWhiteSpace c)
        \<and> (same_ignoring_case w (utf16 ''semver'') \<or> same_ignoring_case w (utf16 ''public'')
             \<or> same_ignoring_case w (utf16 ''api''))"
  then obtain n ws w suf where s: "s = n @ ws @ w @ suf" and n: "same_ignoring_case n (utf16 ''no'')"
    and ws: "ws \<noteq> []" "\<forall>c\<in>set ws. isWhiteSpace c"
    and w: "same_ignoring_case w (utf16 ''semver'') \<or> same_ignoring_case w (utf16 ''public'')
             \<or> same_ignoring_case w (utf16 ''api'')"
    by blast
  have no: "starts_with True (utf16 ''no'') s"
    unfolding starts_with_iff using s n by (auto simp: same_ignoring_case_def)
  have "length n = 2"
    using n length_map [of "Canonicalize True" n] by (simp add: same_ignoring_case_def utf16_def)
  with s have d: "drop 2 s = ws @ w @ suf" by simp
  from ws obtain x xs where x: "ws = x # xs" "isWhiteSpace x" "\<forall>c\<in>set xs. isWhiteSpace c"
    by (cases ws) auto
  have sw: "success_word (w @ suf)"
    unfolding success_word_iff using w by blast
  have "dropWhile isWhiteSpace (w @ suf) = w @ suf"
  proof (cases "w @ suf")
    case Nil
    then show ?thesis by simp
  next
    case (Cons y ys)
    with sw success_word_not_space have "\<not> isWhiteSpace y" by metis
    with Cons show ?thesis by simp
  qed
  then have "dropWhile isWhiteSpace (xs @ w @ suf) = w @ suf"
    using x(3) by (simp add: dropWhile_append)
  with no d x sw show "success_at s"
    by (simp add: success_at_def)
qed

lemma test_SUCCESS_REGEX: "test True SUCCESS_REGEX t \<longleftrightarrow> success_phrase t"
proof
  assume "test True SUCCESS_REGEX t"
  then obtain k where "k \<le> length t" "success_at (drop k t)"
    unfolding test_iff_drop matcher_SUCCESS_REGEX by blast
  then obtain n ws w suf where "drop k t = n @ ws @ w @ suf" "same_ignoring_case n (utf16 ''no'')"
    "ws \<noteq> []" "\<forall>c\<in>set ws. isWhiteSpace c"
    "same_ignoring_case w (utf16 ''semver'') \<or> same_ignoring_case w (utf16 ''public'')
       \<or> same_ignoring_case w (utf16 ''api'')"
    unfolding success_at_iff by blast
  moreover from this have "t = take k t @ n @ ws @ w @ suf"
    by (metis append_take_drop_id)
  ultimately show "success_phrase t"
    unfolding success_phrase_def by blast
next
  assume "success_phrase t"
  then obtain pre n ws w suf where t: "t = pre @ n @ ws @ w @ suf" and
    *: "same_ignoring_case n (utf16 ''no'')" "ws \<noteq> []" "\<forall>c\<in>set ws. isWhiteSpace c"
    "same_ignoring_case w (utf16 ''semver'') \<or> same_ignoring_case w (utf16 ''public'')
       \<or> same_ignoring_case w (utf16 ''api'')"
    unfolding success_phrase_def by blast
  then have "drop (length pre) t = n @ ws @ w @ suf"
    by simp
  with * have "success_at (drop (length pre) t)"
    unfolding success_at_iff by blast
  moreover have "length pre \<le> length t"
    using t by simp
  ultimately show "test True SUCCESS_REGEX t"
    unfolding test_iff_drop matcher_SUCCESS_REGEX by blast
qed

section \<open>The cleaned output\<close>

lemma escape_sequence_iff: "escape_sequence e \<longleftrightarrow> is_escape e"
proof
  assume e: "escape_sequence e"
  then have len: "3 \<le> length e" and t: "take 2 e = [27, 91]" and l: "last e = 109"
    and ds: "\<forall>c\<in>set (butlast (drop 2 e)). (48 \<le> c \<and> c \<le> 57) \<or> c = 59"
    unfolding escape_sequence_def by simp_all
  from len have d: "drop 2 e \<noteq> []"
    by simp
  from len l have "last (drop 2 e) = 109"
    by (simp add: last_drop)
  with append_butlast_last_id [OF d] have "drop 2 e = butlast (drop 2 e) @ [109]"
    by simp
  with append_take_drop_id [of 2 e] t have "e = [27, 91] @ butlast (drop 2 e) @ [109]"
    by metis
  then have "e = 27 # 91 # butlast (drop 2 e) @ [109]"
    by simp
  moreover from ds have "\<forall>c\<in>set (butlast (drop 2 e)). digit_or_semicolon c"
    by (auto simp: digit_or_semicolon_def)
  ultimately show "is_escape e"
    unfolding is_escape_shape by blast
next
  assume "is_escape e"
  then obtain ps where "e = 27 # 91 # ps @ [109]" "\<forall>c\<in>set ps. digit_or_semicolon c"
    unfolding is_escape_shape by blast
  then show "escape_sequence e"
    by (auto simp: escape_sequence_def digit_or_semicolon_def)
qed

lemma escape_rest_of_escape: "is_escape e \<Longrightarrow> escape_rest (e @ r) = Some r"
  unfolding is_escape_shape escape_rest_Some_iff by auto

lemma escape_rest_gives_escape:
  assumes "escape_rest s = Some r"
  obtains e where "is_escape e" and "s = e @ r"
proof -
  from assms obtain ps where "s = 27 # 91 # ps @ 109 # r" "\<forall>c\<in>set ps. digit_or_semicolon c"
    unfolding escape_rest_Some_iff by blast
  then have "is_escape (27 # 91 # ps @ [109])" "s = (27 # 91 # ps @ [109]) @ r"
    unfolding is_escape_shape by auto
  with that show thesis by blast
qed

lemma no_escape_prefix:
  "(\<forall>e\<in>set (prefixes s). \<not> escape_sequence e) \<longleftrightarrow> escape_rest s = None"
proof
  assume no: "\<forall>e\<in>set (prefixes s). \<not> escape_sequence e"
  show "escape_rest s = None"
  proof (cases "escape_rest s")
    case (Some r)
    then obtain e where "is_escape e" "s = e @ r"
      by (rule escape_rest_gives_escape)
    with no show ?thesis
      by (auto simp: escape_sequence_iff in_set_prefixes)
  qed simp
next
  assume none: "escape_rest s = None"
  show "\<forall>e\<in>set (prefixes s). \<not> escape_sequence e"
  proof
    fix e
    assume "e \<in> set (prefixes s)"
    then obtain r where "s = e @ r"
      by (auto simp: in_set_prefixes prefix_def)
    with none escape_rest_of_escape [of e r] show "\<not> escape_sequence e"
      by (auto simp: escape_sequence_iff)
  qed
qed

lemma without_escapes_stripAnsi: "without_escapes raw (stripAnsi raw)"
proof (induction raw rule: length_induct)
  case (1 raw)
  show ?case
  proof (cases raw)
    case Nil
    then show ?thesis by (simp add: without_escapes.empty)
  next
    case (Cons x r)
    show ?thesis
    proof (cases "escape_rest (x # r)")
      case None
      from 1 Cons have "without_escapes r (stripAnsi r)"
        by simp
      moreover from None have "\<forall>e\<in>set (prefixes (x # r)). \<not> escape_sequence e"
        by (simp only: no_escape_prefix)
      ultimately have "without_escapes (x # r) (x # stripAnsi r)"
        by (rule without_escapes.keep [rotated])
      with None show ?thesis
        unfolding Cons by (simp add: stripAnsi_Cons)
    next
      case (Some r')
      then obtain e where e: "is_escape e" "x # r = e @ r'"
        by (rule escape_rest_gives_escape)
      from Some have "length r' < length (x # r)"
        by (rule escape_rest_shorter)
      with 1 Cons have "without_escapes r' (stripAnsi r')"
        by simp
      with e(1) have "without_escapes (e @ r') (stripAnsi r')"
        by (simp add: without_escapes.skip escape_sequence_iff)
      with e show ?thesis
        unfolding Cons by (simp add: stripAnsi_escape_prefix)
    qed
  qed
qed

lemma without_escapes_unique: "without_escapes raw c \<Longrightarrow> c = stripAnsi raw"
proof (induction rule: without_escapes.induct)
  case empty
  show ?case by simp
next
  case (skip e r c)
  then show ?case
    by (simp add: stripAnsi_escape_prefix escape_sequence_iff)
next
  case (keep x r c)
  from keep.hyps(1) have "escape_rest (x # r) = None"
    by (simp only: no_escape_prefix)
  with keep.IH show ?case
    by (simp add: stripAnsi_Cons)
qed

lemma without_escapes_iff: "without_escapes raw c \<longleftrightarrow> c = stripAnsi raw"
  using without_escapes_stripAnsi without_escapes_unique by blast

lemma without_margin_trim: "without_margin t (trim t)"
proof -
  let ?d = "dropWhile isWhiteSpace t"
  let ?a = "takeWhile isWhiteSpace t"
  let ?b = "rev (takeWhile isWhiteSpace (rev ?d))"
  have d: "?d = trim t @ ?b"
  proof -
    have "rev (dropWhile isWhiteSpace (rev ?d)) @ rev (takeWhile isWhiteSpace (rev ?d))
        = rev (takeWhile isWhiteSpace (rev ?d) @ dropWhile isWhiteSpace (rev ?d))"
      by (simp only: rev_append)
    also have "\<dots> = rev (rev ?d)"
      by (simp only: takeWhile_dropWhile_id)
    also have "\<dots> = ?d"
      by (simp only: rev_rev_ident)
    finally show ?thesis
      by (simp add: trim_def)
  qed
  have t: "t = ?a @ trim t @ ?b"
    using d takeWhile_dropWhile_id [of isWhiteSpace t] by simp
  have a: "\<forall>x\<in>set ?a. isWhiteSpace x"
    by (auto dest: set_takeWhileD)
  have b: "\<forall>x\<in>set ?b. isWhiteSpace x"
    by (auto dest: set_takeWhileD)
  have ends: "\<not> isWhiteSpace (hd (trim t)) \<and> \<not> isWhiteSpace (last (trim t))" if ne: "trim t \<noteq> []"
  proof
    from ne d have "?d \<noteq> []"
      by (metis append_is_Nil_conv)
    moreover from ne d have "hd ?d = hd (trim t)"
      by (metis hd_append2)
    ultimately show "\<not> isWhiteSpace (hd (trim t))"
      using hd_dropWhile [of isWhiteSpace t] by (simp del: dropWhile_eq_Nil_conv)
    from ne have r: "dropWhile isWhiteSpace (rev ?d) \<noteq> []"
      by (simp add: trim_def del: dropWhile_eq_Nil_conv)
    then have "\<not> isWhiteSpace (hd (dropWhile isWhiteSpace (rev ?d)))"
      by (rule hd_dropWhile)
    with r show "\<not> isWhiteSpace (last (trim t))"
      by (simp add: trim_def last_rev del: dropWhile_eq_Nil_conv)
  qed
  from t have "prefix ?a t" "suffix ?b t"
    by (metis prefixI, metis append.assoc suffixI)
  with t a b ends show ?thesis
    unfolding without_margin_def Bex_def in_set_prefixes in_set_suffixes by blast
qed

lemma without_margin_unique:
  assumes "without_margin t c"
  shows "c = trim t"
proof -
  from assms obtain a b where t: "t = a @ c @ b" and a: "\<forall>x\<in>set a. isWhiteSpace x"
    and b: "\<forall>x\<in>set b. isWhiteSpace x"
    and ends: "c \<noteq> [] \<longrightarrow> \<not> isWhiteSpace (hd c) \<and> \<not> isWhiteSpace (last c)"
    unfolding without_margin_def by blast
  show ?thesis
  proof (cases "c = []")
    case True
    with t a b have "\<forall>x\<in>set t. isWhiteSpace x"
      by auto
    then have "dropWhile isWhiteSpace t = []"
      by (metis dropWhile_eq_Nil_conv)
    with True show ?thesis
      by (simp add: trim_def del: dropWhile_eq_Nil_conv)
  next
    case False
    with ends have h: "\<not> isWhiteSpace (hd c)" and l: "\<not> isWhiteSpace (last c)"
      by simp_all
    from False obtain x xs where c: "c = x # xs"
      by (cases c) auto
    with h have "\<not> isWhiteSpace x"
      by simp
    with a have d: "dropWhile isWhiteSpace t = c @ b"
      unfolding t c by (simp add: dropWhile_append3)
    from False have rc: "rev c \<noteq> []" "hd (rev c) = last c"
      by (simp_all add: hd_rev)
    then obtain y ys where r: "rev c = y # ys"
      by (cases "rev c") auto
    with rc l have "\<not> isWhiteSpace y"
      by simp
    with b have "dropWhile isWhiteSpace (rev b @ rev c) = rev c"
      unfolding r by (simp add: dropWhile_append3)
    then show ?thesis
      by (simp add: trim_def d)
  qed
qed

lemma without_margin_iff: "without_margin t c \<longleftrightarrow> c = trim t"
  using without_margin_trim without_margin_unique by blast

lemma cleaned_iff: "cleaned r c \<longleftrightarrow> c = combined_output r"
  by (simp add: cleaned_def combined_output_def without_escapes_iff without_margin_iff)

lemma scanned_iff: "(\<exists>c. cleaned r c \<and> without_escapes c t) \<longleftrightarrow> t = scanned_text r"
  by (simp add: cleaned_iff without_escapes_iff scanned_text_def)

lemma without_escapes_plain: "27 \<notin> set t \<Longrightarrow> without_escapes t t"
proof (induction t)
  case Nil
  show ?case by (rule without_escapes.empty)
next
  case (Cons x t)
  then have "x \<noteq> 27" "without_escapes t t"
    by auto
  moreover from \<open>x \<noteq> 27\<close> have "\<forall>e\<in>set (prefixes (x # t)). \<not> escape_sequence e"
    by (auto simp: escape_sequence_def)
  ultimately show ?case
    by (intro without_escapes.keep)
qed

section \<open>Claims about the result classifier\<close>

lemma SemverType_string_inject: "SemverType_string S = SemverType_string S' \<longleftrightarrow> S = S'"
  by (cases S; cases S') (simp_all add: utf16_def)

lemma determineSemverType_result:
  assumes "extractRequiredUpdatesFromText (combined_output r) = Inr found"
  shows "fst (determineSemverType r w) =
     (if status r \<noteq> Some 0 \<and> found = [] \<and> \<not> test True SUCCESS_REGEX (combined_output r)
      then Inl (Error (utf16 ''cargo semver-checks failed to produce parseable output:\<newline>'' @ combined_output r))
      else if SemverType_string major \<in> set found then Inr major
      else if SemverType_string minor \<in> set found then Inr minor
      else Inr patch)"
  using assms by (simp add: determineSemverType_def Let_def)

lemma cleaned_exists: "\<exists>c t. cleaned r c \<and> without_escapes c t"
  by (auto simp: cleaned_iff without_escapes_iff)

lemma determineSemverType_on_cleaned:
  assumes c: "cleaned r c" and t: "without_escapes c t"
  shows "\<exists>found. extractRequiredUpdatesFromText c = Inr found
    \<and> (\<forall>S. SemverType_string S \<in> set found \<longleftrightarrow> mentions S t)
    \<and> set found = {SemverType_string S | S. mentions S t}
    \<and> fst (determineSemverType r w) =
     (if status r \<noteq> Some 0 \<and> found = [] \<and> \<not> success_phrase c
      then Inl (Error (utf16 ''cargo semver-checks failed to produce parseable output:\<newline>'' @ c))
      else if mentions major t then Inr major
      else if mentions minor t then Inr minor
      else Inr patch)"
proof -
  from c have c': "c = combined_output r"
    by (simp add: cleaned_iff)
  with t have t': "t = scanned_text r"
    by (simp add: without_escapes_iff scanned_text_def)
  from extractRequiredUpdatesFromText_mentions [of "combined_output r"]
  obtain found where found: "extractRequiredUpdatesFromText (combined_output r) = Inr found"
    and set: "set found = {SemverType_string S | S. mentions S (scanned_text r)}"
    unfolding scanned_text_def by (elim exE conjE)
  have mem: "SemverType_string S \<in> set found \<longleftrightarrow> mentions S (scanned_text r)" for S
    unfolding set by (auto simp: SemverType_string_inject)
  from determineSemverType_result [OF found, of w]
  have "fst (determineSemverType r w) =
     (if status r \<noteq> Some 0 \<and> found = [] \<and> \<not> success_phrase c
      then Inl (Error (utf16 ''cargo semver-checks failed to produce parseable output:\<newline>'' @ c))
      else if mentions major t then Inr major
      else if mentions minor t then Inr minor
      else Inr patch)"
    unfolding mem c' t' test_SUCCESS_REGEX by simp
  with found set mem show ?thesis
    unfolding c' t' by blast
qed

text \<open>
  C1, amended. The text the severity scan reads is the cleaned output with escape sequences
  left out once more. When \<open>determineSemverType\<close> returns, the set it extracted holds exactly
  the severities whose phrase that text mentions, and the value returned is the highest of
  them in the order \<open>major > minor > patch\<close>, or \<open>patch\<close> when there is none. So a scanned text
  that mentions one severity only gives that severity, and one that mentions both \<open>major\<close>
  and \<open>minor\<close> gives \<open>major\<close>. The scanned text is the cleaned output itself when that has
  no escape sequence left in it.
\<close>

theorem determineSemverType_highest_severity:
  "(\<exists>c t. cleaned r c \<and> without_escapes c t)
   \<and> (fst (determineSemverType r w) = Inr v \<and> cleaned r c \<and> without_escapes c t \<longrightarrow>
        (\<exists>found. extractRequiredUpdatesFromText c = Inr found
            \<and> set found = {SemverType_string S | S. mentions S t}
            \<and> (found = [] \<longrightarrow> v = patch)
            \<and> (found \<noteq> [] \<longrightarrow> SemverType_string v \<in> set found)
            \<and> (\<forall>S. SemverType_string S \<in> set found \<longrightarrow> rank S \<le> rank v))
        \<and> (\<forall>S. mentions S t \<and> (\<forall>S'. mentions S' t \<longrightarrow> S' = S) \<longrightarrow> v = S)
        \<and> (mentions major t \<and> mentions minor t \<longrightarrow> v = major)
        \<and> (without_escapes c c \<longrightarrow> t = c))"
proof (intro conjI impI)
  show "\<exists>c t. cleaned r c \<and> without_escapes c t"
    by (rule cleaned_exists)
next
  assume a: "fst (determineSemverType r w) = Inr v \<and> cleaned r c \<and> without_escapes c t"
  then have ret: "fst (determineSemverType r w) = Inr v" and c: "cleaned r c" and t: "without_escapes c t"
    by simp_all
  from determineSemverType_on_cleaned [OF c t, of w]
  obtain found where found: "extractRequiredUpdatesFromText c = Inr found"
    and mem': "\<forall>S. SemverType_string S \<in> set found \<longleftrightarrow> mentions S t"
    and set: "set found = {SemverType_string S | S. mentions S t}"
    and res: "fst (determineSemverType r w) =
     (if status r \<noteq> Some 0 \<and> found = [] \<and> \<not> success_phrase c
      then Inl (Error (utf16 ''cargo semver-checks failed to produce parseable output:\<newline>'' @ c))
      else if mentions major t then Inr major
      else if mentions minor t then Inr minor
      else Inr patch)"
    by (elim exE conjE)
  from mem' have mem: "\<And>S. SemverType_string S \<in> set found \<longleftrightarrow> mentions S t"
    by simp
  from ret have v: "v = (if mentions major t then major else if mentions minor t then minor else patch)"
    unfolding res by (simp split: if_splits)
  have empty: "found = [] \<longrightarrow> v = patch"
  proof
    assume "found = []"
    then have "\<And>S. \<not> mentions S t"
      using mem by (metis empty_iff empty_set)
    with v show "v = patch" by simp
  qed
  have present: "found \<noteq> [] \<longrightarrow> SemverType_string v \<in> set found"
  proof
    assume "found \<noteq> []"
    then obtain x where "x \<in> set found" by (cases found) auto
    then obtain S where "mentions S t"
      unfolding set by blast
    then have "mentions v t"
      using v by (cases S) (auto split: if_splits)
    then show "SemverType_string v \<in> set found"
      by (simp add: mem)
  qed
  have highest: "\<forall>S. SemverType_string S \<in> set found \<longrightarrow> rank S \<le> rank v"
  proof (intro allI impI)
    fix S
    assume "SemverType_string S \<in> set found"
    then have "mentions S t" by (simp add: mem)
    then show "rank S \<le> rank v"
      using v by (cases S) (auto split: if_splits)
  qed
  from found set empty present highest
  show "\<exists>found. extractRequiredUpdatesFromText c = Inr found
            \<and> set found = {SemverType_string S | S. mentions S t}
            \<and> (found = [] \<longrightarrow> v = patch)
            \<and> (found \<noteq> [] \<longrightarrow> SemverType_string v \<in> set found)
            \<and> (\<forall>S. SemverType_string S \<in> set found \<longrightarrow> rank S \<le> rank v)"
    by blast
  show "\<forall>S. mentions S t \<and> (\<forall>S'. mentions S' t \<longrightarrow> S' = S) \<longrightarrow> v = S"
  proof (intro allI impI)
    fix S
    assume "mentions S t \<and> (\<forall>S'. mentions S' t \<longrightarrow> S' = S)"
    then show "v = S"
      using v by (cases S) (auto split: if_splits)
  qed
  show "v = major" if "mentions major t \<and> mentions minor t"
    using v that by simp
  show "t = c" if "without_escapes c c"
    using t that by (simp add: without_escapes_iff)
qed

theorem determineSemverType_highest_severity_witness:
  "fst (determineSemverType
      \<lparr>status = Some 1,
       stdout = 27 # utf16 ''[31msemver requires new '' @ 27 # utf16 ''[1mmajor'' @ 27 # utf16 ''[0m version'',
       stderr = utf16 ''Semver requires new MINOR version'', error = None\<rparr>
      \<lparr>trace = [], ext = ()\<rparr>) = Inr major
   \<and> cleaned
      \<lparr>status = Some 1,
       stdout = 27 # utf16 ''[31msemver requires new '' @ 27 # utf16 ''[1mmajor'' @ 27 # utf16 ''[0m version'',
       stderr = utf16 ''Semver requires new MINOR version'', error = None\<rparr>
      (utf16 ''semver requires new major version\<newline>Semver requires new MINOR version'')
   \<and> without_escapes (utf16 ''semver requires new major version\<newline>Semver requires new MINOR version'')
        (utf16 ''semver requires new major version\<newline>Semver requires new MINOR version'')
   \<and> mentions major (utf16 ''semver requires new major version\<newline>Semver requires new MINOR version'')
   \<and> mentions minor (utf16 ''semver requires new major version\<newline>Semver requires new MINOR version'')
   \<and> (\<exists>found. extractRequiredUpdatesFromText
            (utf16 ''semver requires new major version\<newline>Semver requires new MINOR version'') = Inr found
        \<and> found \<noteq> [] \<and> SemverType_string major \<in> set found
        \<and> (\<forall>S. SemverType_string S \<in> set found \<longrightarrow> rank S \<le> rank major))"
proof -
  let ?r = "\<lparr>status = Some 1,
       stdout = 27 # utf16 ''[31msemver requires new '' @ 27 # utf16 ''[1mmajor'' @ 27 # utf16 ''[0m version'',
       stderr = utf16 ''Semver requires new MINOR version'', error = None\<rparr>"
  let ?c = "utf16 ''semver requires new major version\<newline>Semver requires new MINOR version''"
  have ret: "fst (determineSemverType ?r \<lparr>trace = [], ext = ()\<rparr>) = Inr major"
    by (simp add: eval_defs)
  have c: "cleaned ?r ?c"
    unfolding cleaned_iff by (simp add: eval_defs)
  have t: "without_escapes ?c ?c"
    by (rule without_escapes_plain) (simp add: utf16_def)
  have mj: "mentions major ?c" and mn: "mentions minor ?c"
    by (simp_all add: eval_defs mentions_def phrase_def)
  from determineSemverType_highest_severity [of ?r "\<lparr>trace = [], ext = ()\<rparr>" major ?c ?c] ret c t
  obtain found where "extractRequiredUpdatesFromText ?c = Inr found"
    "set found = {SemverType_string S | S. mentions S ?c}"
    "found \<noteq> [] \<longrightarrow> SemverType_string major \<in> set found"
    "\<forall>S. SemverType_string S \<in> set found \<longrightarrow> rank S \<le> rank major"
    by blast
  moreover from this mj have "found \<noteq> []"
    by auto
  ultimately show ?thesis
    using ret c t mj mn by blast
qed

theorem nested_escape_severity_counterexample:
  "cleaned
      \<lparr>status = Some 1,
       stdout = utf16 ''semver requires new minor version; semver requires new ''
                @ 27 # utf16 ''['' @ 27 # utf16 ''[0m0mmajor version'',
       stderr = [], error = None\<rparr>
      (utf16 ''semver requires new minor version; semver requires new '' @ 27 # utf16 ''[0mmajor version'')
   \<and> mentions minor
        (utf16 ''semver requires new minor version; semver requires new '' @ 27 # utf16 ''[0mmajor version'')
   \<and> \<not> mentions major
        (utf16 ''semver requires new minor version; semver requires new '' @ 27 # utf16 ''[0mmajor version'')
   \<and> \<not> mentions patch
        (utf16 ''semver requires new minor version; semver requires new '' @ 27 # utf16 ''[0mmajor version'')
   \<and> fst (determineSemverType
      \<lparr>status = Some 1,
       stdout = utf16 ''semver requires new minor version; semver requires new ''
                @ 27 # utf16 ''['' @ 27 # utf16 ''[0m0mmajor version'',
       stderr = [], error = None\<rparr>
      \<lparr>trace = [], ext = ()\<rparr>) = Inr major"
proof -
  let ?r = "\<lparr>status = Some 1,
       stdout = utf16 ''semver requires new minor version; semver requires new ''
                @ 27 # utf16 ''['' @ 27 # utf16 ''[0m0mmajor version'',
       stderr = [], error = None\<rparr>"
  let ?c = "utf16 ''semver requires new minor version; semver requires new '' @ 27 # utf16 ''[0mmajor version''"
  have c: "cleaned ?r ?c"
    unfolding cleaned_iff by (simp add: eval_defs)
  have m: "mentions minor ?c" "\<not> mentions major ?c" "\<not> mentions patch ?c"
    by (simp_all add: eval_defs mentions_def phrase_def)
  have ret: "fst (determineSemverType ?r \<lparr>trace = [], ext = ()\<rparr>) = Inr major"
    by (simp add: eval_defs)
  from c m ret show ?thesis
    by blast
qed



section \<open>Claims about label reconciliation\<close>

lemmas io_defs = io_return_def io_throw_def io_bind_def io_then_def io_catch_def io_when_def log_def call_def

lemma ext_emit [simp]: "ext (emit e w) = ext w"
  by (simp add: emit_def)

lemma trace_emit [simp]: "trace (emit e w) = trace w @ [e]"
  by (simp add: emit_def)

lemma emit_ext_update: "emit e (w\<lparr>ext := x\<rparr>) = (emit e w)\<lparr>ext := x\<rparr>"
  by (simp add: emit_def)

lemma received_simps [simp]:
  "open_pulls (received c p) = open_pulls p"
  "commit_pulls (received c p) = commit_pulls p"
  "pull_by_number (received c p) = pull_by_number p"
  "issue_labels (received c p) = issue_labels p"
  "repo_labels (received c p) = repo_labels p"
  "calls (received c p) = calls p @ [c]"
  by (simp_all add: received_def)

lemma is_404_iff: "is_404 e \<longleftrightarrow> (\<exists>msg cd. e = ErrorObject msg (Some 404) cd)"
  by (cases e) auto

lemma reference_octokit_simps:
  "pulls_list reference_octokit owner repo head state p
     = (Inr (open_pulls p head), received (PullsList head state) p)"
  "repos_listPullRequestsAssociatedWithCommit reference_octokit owner repo sha p
     = (Inr (commit_pulls p sha), received (ListPullRequestsAssociatedWithCommit sha) p)"
  "pulls_get reference_octokit owner repo n p
     = (case pull_by_number p n of None \<Rightarrow> Inl not_found | Some pr \<Rightarrow> Inr pr, received (PullsGet n) p)"
  "issues_getLabel reference_octokit owner repo name p
     = (if name \<in> set (repo_labels p) then Inr () else Inl not_found, received (GetLabel name) p)"
  "issues_createLabel reference_octokit owner repo name color description p
     = (if name \<in> set (repo_labels p)
        then (Inl (ErrorObject (utf16 ''Validation Failed'') (Some 422) None),
              received (CreateLabel name color description) p)
        else (Inr (), (received (CreateLabel name color description) p)\<lparr>repo_labels := repo_labels p @ [name]\<rparr>))"
  "issues_removeLabel reference_octokit owner repo issue name p
     = (if name \<in> set (issue_labels p)
        then (Inr (), (received (RemoveLabel name) p)\<lparr>issue_labels := removeAll name (issue_labels p)\<rparr>)
        else (Inl not_found, received (RemoveLabel name) p))"
  "issues_listLabelsOnIssue reference_octokit owner repo issue p
     = (Inr (issue_labels p), received ListLabelsOnIssue p)"
  "issues_addLabels reference_octokit owner repo issue names p
     = (Inr (), (received (AddLabels names) p)
           \<lparr>issue_labels := issue_labels p @ filter (\<lambda>n. n \<notin> set (issue_labels p)) (remdups names),
            repo_labels := repo_labels p @ filter (\<lambda>n. n \<notin> set (repo_labels p)) (remdups names)\<rparr>)"
  by (simp_all add: reference_octokit_def)

lemma removeLabelIfExists_reference:
  assumes "l \<in> set (issue_labels (ext w))"
  shows "io_then (log (Info (utf16 ''Removing old label: '' @ l)))
           (removeLabelIfExists reference_octokit owner repo issueNumber l) w = (Inr (), removal_step l w)"
  using assms
  by (simp add: removeLabelIfExists_def io_defs reference_octokit_simps removal_step_def emit_def)

lemma issue_labels_removal_step [simp]:
  "issue_labels (ext (removal_step l w)) = removeAll l (issue_labels (ext w))"
  by (simp add: removal_step_def)

lemma remove_old_labels_reference:
  "set labels \<subseteq> set (issue_labels (ext w)) \<Longrightarrow> distinct labels \<Longrightarrow>
   remove_old_labels reference_octokit owner repo issueNumber labelPrefix newLabel labels w
     = (Inr (), fold removal_step (filter (\<lambda>l. starts_with False labelPrefix l \<and> l \<noteq> newLabel) labels) w)"
proof (induction labels arbitrary: w)
  case Nil
  show ?case by (simp add: io_return_def)
next
  case (Cons l labels)
  show ?case
  proof (cases "starts_with False labelPrefix l \<and> l \<noteq> newLabel")
    case True
    have l: "l \<in> set (issue_labels (ext w))"
      using Cons.prems by simp
    have "set labels \<subseteq> set (issue_labels (ext (removal_step l w)))"
      using Cons.prems by auto
    moreover have "distinct labels"
      using Cons.prems by simp
    ultimately have "remove_old_labels reference_octokit owner repo issueNumber labelPrefix newLabel labels
        (removal_step l w)
      = (Inr (), fold removal_step (filter (\<lambda>l. starts_with False labelPrefix l \<and> l \<noteq> newLabel) labels)
          (removal_step l w))"
      by (rule Cons.IH)
    with True removeLabelIfExists_reference [OF l, of owner repo issueNumber] show ?thesis
      by (simp add: io_then_def io_bind_def)
  next
    case False
    have "remove_old_labels reference_octokit owner repo issueNumber labelPrefix newLabel labels w
      = (Inr (), fold removal_step (filter (\<lambda>l. starts_with False labelPrefix l \<and> l \<noteq> newLabel) labels) w)"
      using Cons.prems by (intro Cons.IH) auto
    with False show ?thesis
      by (auto simp: io_then_def io_bind_def io_return_def)
  qed
qed

lemma fold_removal_step:
  "issue_labels (ext (fold removal_step ls w)) = filter (\<lambda>l. l \<notin> set ls) (issue_labels (ext w))
   \<and> repo_labels (ext (fold removal_step ls w)) = repo_labels (ext w)
   \<and> calls (ext (fold removal_step ls w)) = calls (ext w) @ map RemoveLabel ls"
proof (induction ls arbitrary: w)
  case Nil
  show ?case by simp
next
  case (Cons l ls)
  have "filter (\<lambda>k. k \<notin> set ls) (removeAll l (issue_labels (ext w)))
      = filter (\<lambda>k.  k \<notin> set (l # ls)) (issue_labels (ext w))"
    by (auto simp: removeAll_filter_not_eq intro!: filter_cong)
  with Cons [of "removal_step l w"] show ?case
    by (simp add: removal_step_def received_def)
qed

lemma set_fold_Set_add: "set (fold Set_add xs acc) = set acc \<union> set xs"
  by (induction xs arbitrary: acc) (auto simp: Set_add_def)

lemma upsertSemverLabel_unfold:
  "upsertSemverLabel octokit owner repo issueNumber labelPrefix newLabel w =
     (case issues_listLabelsOnIssue octokit owner repo issueNumber (ext w) of
        (Inl e, x) \<Rightarrow>
          (Inl e, (emit (Info (utf16 ''Fetching existing labels for issue #'' @ String_number issueNumber
                     @ utf16 ''...'')) w)\<lparr>ext := x\<rparr>)
      | (Inr existingLabels, x) \<Rightarrow>
          io_then
            (if labelPrefix \<noteq> []
             then remove_old_labels octokit owner repo issueNumber labelPrefix newLabel existingLabels
             else io_return ())
            (if newLabel \<notin> set existingLabels
             then io_then (log (Info (utf16 ''Adding new label: '' @ newLabel)))
                   (io_then (ensureLabelExists octokit owner repo newLabel)
                      (call (issues_addLabels octokit owner repo issueNumber [newLabel])))
             else log (Info (utf16 ''Label '' @ [34] @ newLabel @ [34] @ utf16 '' already exists, skipping.'')))
            (emit (Info (utf16 ''Found '' @ String_nat (length existingLabels) @ utf16 '' existing labels: ''
                      @ (if join (fold Set_add existingLabels []) (utf16 '', '') = [] then utf16 ''(none)''
                         else join (fold Set_add existingLabels []) (utf16 '', ''))))
               ((emit (Info (utf16 ''Fetching existing labels for issue #'' @ String_number issueNumber
                     @ utf16 ''...'')) w)\<lparr>ext := x\<rparr>)))"
  by (simp add: upsertSemverLabel_def io_defs Let_def set_fold_Set_add emit_ext_update
        split: prod.splits sum.splits split del: if_split)

lemma upsertSemverLabel_reference:
  fixes labelPrefix newLabel :: jsstring and w :: "platform world"
  defines "L \<equiv> issue_labels (ext w)"
  defines "old \<equiv> filter (\<lambda>l. starts_with False labelPrefix l \<and> l \<noteq> newLabel) (issue_labels (ext w))"
  assumes prefix: "labelPrefix \<noteq> []" and d: "distinct (issue_labels (ext w))"
  shows "fst (upsertSemverLabel reference_octokit owner repo issueNumber labelPrefix newLabel w) = Inr ()"
    and "issue_labels (ext (snd (upsertSemverLabel reference_octokit owner repo issueNumber labelPrefix newLabel w)))
         = filter (\<lambda>l. l \<notin> set old) L @ (if newLabel \<in> set L then [] else [newLabel])"
    and "repo_labels (ext (snd (upsertSemverLabel reference_octokit owner repo issueNumber labelPrefix newLabel w)))
         = repo_labels (ext w) @ (if newLabel \<in> set L \<or> newLabel \<in> set (repo_labels (ext w)) then [] else [newLabel])"
    and "calls (ext (snd (upsertSemverLabel reference_octokit owner repo issueNumber labelPrefix newLabel w)))
         = calls (ext w) @ ListLabelsOnIssue # map RemoveLabel old
           @ (if newLabel \<in> set L then []
              else GetLabel newLabel
                # (if newLabel \<in> set (repo_labels (ext w)) then []
                   else [CreateLabel newLabel (utf16 ''ededed'') (utf16 ''Semver required update'')])
                @ [AddLabels [newLabel]])"
proof -
  define W where "W = emit (Info (utf16 ''Found '' @ String_nat (length L) @ utf16 '' existing labels: ''
                      @ (if join (fold Set_add L []) (utf16 '', '') = [] then utf16 ''(none)''
                         else join (fold Set_add L []) (utf16 '', ''))))
               ((emit (Info (utf16 ''Fetching existing labels for issue #'' @ String_number issueNumber
                     @ utf16 ''...'')) w)\<lparr>ext := received ListLabelsOnIssue (ext w)\<rparr>)"
  let ?w4 = "fold removal_step old W"
  have W: "issue_labels (ext W) = L" "repo_labels (ext W) = repo_labels (ext w)"
    "calls (ext W) = calls (ext w) @ [ListLabelsOnIssue]"
    by (simp_all add: W_def L_def)
  have list: "issues_listLabelsOnIssue reference_octokit owner repo issueNumber (ext w)
      = (Inr L, received ListLabelsOnIssue (ext w))"
    by (simp add: reference_octokit_simps L_def)
  have dL: "distinct L"
    using d by (simp add: L_def)
  have sub: "set L \<subseteq> set (issue_labels (ext W))"
    by (simp add: W)
  have loop: "remove_old_labels reference_octokit owner repo issueNumber labelPrefix newLabel L W = (Inr (), ?w4)"
    unfolding old_def L_def [symmetric]
    by (rule remove_old_labels_reference [OF sub dL])
  have w4: "issue_labels (ext ?w4) = filter (\<lambda>l. l \<notin> set old) L"
    "repo_labels (ext ?w4) = repo_labels (ext w)"
    "calls (ext ?w4) = calls (ext w) @ ListLabelsOnIssue # map RemoveLabel old"
    using fold_removal_step [of old W] by (simp_all add: W)
  have "upsertSemverLabel reference_octokit owner repo issueNumber labelPrefix newLabel w =
      io_then (remove_old_labels reference_octokit owner repo issueNumber labelPrefix newLabel L)
        (if newLabel \<notin> set L
         then io_then (log (Info (utf16 ''Adding new label: '' @ newLabel)))
                (io_then (ensureLabelExists reference_octokit owner repo newLabel)
                   (call (issues_addLabels reference_octokit owner repo issueNumber [newLabel])))
         else log (Info (utf16 ''Label '' @ [34] @ newLabel @ [34] @ utf16 '' already exists, skipping.''))) W"
    unfolding upsertSemverLabel_unfold list W_def using prefix by simp
  then have head: "upsertSemverLabel reference_octokit owner repo issueNumber labelPrefix newLabel w =
      (if newLabel \<notin> set L
       then io_then (log (Info (utf16 ''Adding new label: '' @ newLabel)))
              (io_then (ensureLabelExists reference_octokit owner repo newLabel)
                 (call (issues_addLabels reference_octokit owner repo issueNumber [newLabel]))) ?w4
       else log (Info (utf16 ''Label '' @ [34] @ newLabel @ [34] @ utf16 '' already exists, skipping.'')) ?w4)"
    using loop by (simp add: io_then_def io_bind_def)
  have new_not_left: "newLabel \<notin> set (filter (\<lambda>l. l \<notin> set old) L)" if "newLabel \<notin> set L"
    using that by simp
  show "fst (upsertSemverLabel reference_octokit owner repo issueNumber labelPrefix newLabel w) = Inr ()"
    unfolding head
    by (simp add: io_defs ensureLabelExists_def reference_octokit_simps not_found_def)
  show "issue_labels (ext (snd (upsertSemverLabel reference_octokit owner repo issueNumber labelPrefix newLabel w)))
         = filter (\<lambda>l. l \<notin> set old) L @ (if newLabel \<in> set L then [] else [newLabel])"
    unfolding head using w4
    by (simp add: io_defs ensureLabelExists_def reference_octokit_simps not_found_def)
  show "repo_labels (ext (snd (upsertSemverLabel reference_octokit owner repo issueNumber labelPrefix newLabel w)))
         = repo_labels (ext w) @ (if newLabel \<in> set L \<or> newLabel \<in> set (repo_labels (ext w)) then [] else [newLabel])"
    unfolding head using w4
    by (simp add: io_defs ensureLabelExists_def reference_octokit_simps not_found_def)
  show "calls (ext (snd (upsertSemverLabel reference_octokit owner repo issueNumber labelPrefix newLabel w)))
         = calls (ext w) @ ListLabelsOnIssue # map RemoveLabel old
           @ (if newLabel \<in> set L then []
              else GetLabel newLabel
                # (if newLabel \<in> set (repo_labels (ext w)) then []
                   else [CreateLabel newLabel (utf16 ''ededed'') (utf16 ''Semver required update'')])
                @ [AddLabels [newLabel]])"
    unfolding head using w4
    by (simp add: io_defs ensureLabelExists_def reference_octokit_simps not_found_def)
qed

text \<open>
  C7, amended. On the reference platform, with a non-empty prefix (the one \<open>run\<close> passes is
  never empty) and the labels of the issue distinct, label reconciliation succeeds and
  removes exactly the attached labels that start with the prefix and differ from the new
  label, leaves every label without the prefix attached, and attaches the new label only
  when it was not attached, after looking it up in the repository and creating it there
  if the lookup gave 404. When the new label is already attached it is not attached again;
  no label changes at all when, besides, no other attached label starts with the prefix.
\<close>

theorem label_reconciliation:
  fixes labelPrefix newLabel :: jsstring and w :: "platform world"
  assumes "labelPrefix \<noteq> []" and "distinct (issue_labels (ext w))"
  shows "fst (upsertSemverLabel reference_octokit owner repo issueNumber labelPrefix newLabel w) = Inr ()
    \<and> set (issue_labels (ext (snd (upsertSemverLabel reference_octokit owner repo issueNumber labelPrefix newLabel w))))
        = (set (issue_labels (ext w)) - {l. starts_with False labelPrefix l \<and> l \<noteq> newLabel}) \<union> {newLabel}
    \<and> (\<forall>l\<in>set (issue_labels (ext w)). \<not> starts_with False labelPrefix l \<longrightarrow>
          l \<in> set (issue_labels (ext (snd (upsertSemverLabel reference_octokit owner repo issueNumber labelPrefix newLabel w)))))
    \<and> calls (ext (snd (upsertSemverLabel reference_octokit owner repo issueNumber labelPrefix newLabel w)))
        = calls (ext w) @ ListLabelsOnIssue
            # map RemoveLabel (filter (\<lambda>l. starts_with False labelPrefix l \<and> l \<noteq> newLabel) (issue_labels (ext w)))
            @ (if newLabel \<in> set (issue_labels (ext w)) then []
               else GetLabel newLabel
                 # (if newLabel \<in> set (repo_labels (ext w)) then []
                    else [CreateLabel newLabel (utf16 ''ededed'') (utf16 ''Semver required update'')])
                 @ [AddLabels [newLabel]])
    \<and> (newLabel \<in> set (issue_labels (ext w))
         \<and> (\<forall>l\<in>set (issue_labels (ext w)). starts_with False labelPrefix l \<longrightarrow> l = newLabel)
        \<longrightarrow> issue_labels (ext (snd (upsertSemverLabel reference_octokit owner repo issueNumber labelPrefix newLabel w)))
              = issue_labels (ext w)
            \<and> repo_labels (ext (snd (upsertSemverLabel reference_octokit owner repo issueNumber labelPrefix newLabel w)))
              = repo_labels (ext w)
            \<and> calls (ext (snd (upsertSemverLabel reference_octokit owner repo issueNumber labelPrefix newLabel w)))
              = calls (ext w) @ [ListLabelsOnIssue])"
proof -
  let ?U = "upsertSemverLabel reference_octokit owner repo issueNumber labelPrefix newLabel w"
  let ?L = "issue_labels (ext w)"
  let ?old = "filter (\<lambda>l. starts_with False labelPrefix l \<and> l \<noteq> newLabel) ?L"
  note u = upsertSemverLabel_reference [OF assms, of owner repo issueNumber newLabel]
  have labels: "issue_labels (ext (snd ?U)) = filter (\<lambda>l. l \<notin> set ?old) ?L @ (if newLabel \<in> set ?L then [] else [newLabel])"
    by (rule u(2))
  have a: "set (issue_labels (ext (snd ?U))) = (set ?L - {l. starts_with False labelPrefix l \<and> l \<noteq> newLabel}) \<union> {newLabel}"
    unfolding labels by auto
  have b: "\<forall>l\<in>set ?L. \<not> starts_with False labelPrefix l \<longrightarrow> l \<in> set (issue_labels (ext (snd ?U)))"
    unfolding labels by auto
  have c: "newLabel \<in> set ?L \<and> (\<forall>l\<in>set ?L. starts_with False labelPrefix l \<longrightarrow> l = newLabel)
        \<longrightarrow> issue_labels (ext (snd ?U)) = ?L \<and> repo_labels (ext (snd ?U)) = repo_labels (ext w)
            \<and> calls (ext (snd ?U)) = calls (ext w) @ [ListLabelsOnIssue]"
  proof
    assume h: "newLabel \<in> set ?L \<and> (\<forall>l\<in>set ?L. starts_with False labelPrefix l \<longrightarrow> l = newLabel)"
    then have "?old = []"
      by (auto simp: filter_empty_conv)
    with h u(2) u(3) u(4) show "issue_labels (ext (snd ?U)) = ?L \<and> repo_labels (ext (snd ?U)) = repo_labels (ext w)
            \<and> calls (ext (snd ?U)) = calls (ext w) @ [ListLabelsOnIssue]"
      by simp
  qed
  from u(1) a b u(4) c show ?thesis
    by (intro conjI)
qed

theorem label_reconciliation_witness:
  "utf16 ''semver: '' \<noteq> []
   \<and> distinct [utf16 ''semver: major'', utf16 ''bug'']
   \<and> fst (upsertSemverLabel reference_octokit (utf16 ''o'') (utf16 ''r'') (Integer 7) (utf16 ''semver: '') (utf16 ''semver: patch'')
        \<lparr>trace = [], ext = \<lparr>open_pulls = (\<lambda>h. []), commit_pulls = (\<lambda>s. []), pull_by_number = (\<lambda>n. None),
           issue_labels = [utf16 ''semver: major'', utf16 ''bug''],
           repo_labels = [utf16 ''semver: major'', utf16 ''bug''], calls = []\<rparr>\<rparr>) = Inr ()
   \<and> set (issue_labels (ext (snd (upsertSemverLabel reference_octokit (utf16 ''o'') (utf16 ''r'') (Integer 7)
        (utf16 ''semver: '') (utf16 ''semver: patch'')
        \<lparr>trace = [], ext = \<lparr>open_pulls = (\<lambda>h. []), commit_pulls = (\<lambda>s. []), pull_by_number = (\<lambda>n. None),
           issue_labels = [utf16 ''semver: major'', utf16 ''bug''],
           repo_labels = [utf16 ''semver: major'', utf16 ''bug''], calls = []\<rparr>\<rparr>))))
      = {utf16 ''semver: patch'', utf16 ''bug''}
   \<and> calls (ext (snd (upsertSemverLabel reference_octokit (utf16 ''o'') (utf16 ''r'') (Integer 7)
        (utf16 ''semver: '') (utf16 ''semver: patch'')
        \<lparr>trace = [], ext = \<lparr>open_pulls = (\<lambda>h. []), commit_pulls = (\<lambda>s. []), pull_by_number = (\<lambda>n. None),
           issue_labels = [utf16 ''semver: major'', utf16 ''bug''],
           repo_labels = [utf16 ''semver: major'', utf16 ''bug''], calls = []\<rparr>\<rparr>)))
      = [ListLabelsOnIssue, RemoveLabel (utf16 ''semver: major''), GetLabel (utf16 ''semver: patch''),
         CreateLabel (utf16 ''semver: patch'') (utf16 ''ededed'') (utf16 ''Semver required update''),
         AddLabels [utf16 ''semver: patch'']]"
proof -
  let ?w = "\<lparr>trace = [], ext = \<lparr>open_pulls = (\<lambda>h. []), commit_pulls = (\<lambda>s. []), pull_by_number = (\<lambda>n. None),
           issue_labels = [utf16 ''semver: major'', utf16 ''bug''],
           repo_labels = [utf16 ''semver: major'', utf16 ''bug''], calls = []\<rparr>\<rparr>"
  let ?U = "upsertSemverLabel reference_octokit (utf16 ''o'') (utf16 ''r'') (Integer 7) (utf16 ''semver: '')
      (utf16 ''semver: patch'') ?w"
  have p: "utf16 ''semver: '' \<noteq> []"
    by (simp add: utf16_def)
  have d': "distinct [utf16 ''semver: major'', utf16 ''bug'']"
    by (simp add: utf16_def)
  then have d: "distinct (issue_labels (ext ?w))"
    by simp
  note t = label_reconciliation [OF p d, of "utf16 ''o''" "utf16 ''r''" "Integer 7" "utf16 ''semver: patch''"]
  from t have r: "fst ?U = Inr ()"
    by (rule conjunct1)
  from t have s: "set (issue_labels (ext (snd ?U)))
      = (set (issue_labels (ext ?w)) - {l. starts_with False (utf16 ''semver: '') l \<and> l \<noteq> utf16 ''semver: patch''})
        \<union> {utf16 ''semver: patch''}"
    by (rule conjunct1 [OF conjunct2])
  have "(set (issue_labels (ext ?w)) - {l. starts_with False (utf16 ''semver: '') l \<and> l \<noteq> utf16 ''semver: patch''})
        \<union> {utf16 ''semver: patch''} = {utf16 ''semver: patch'', utf16 ''bug''}"
    by (auto simp: utf16_def Canonicalize_def)
  with s have s': "set (issue_labels (ext (snd ?U))) = {utf16 ''semver: patch'', utf16 ''bug''}"
    by simp
  from t have c: "calls (ext (snd ?U))
        = calls (ext ?w) @ ListLabelsOnIssue
            # map RemoveLabel (filter (\<lambda>l. starts_with False (utf16 ''semver: '') l \<and> l \<noteq> utf16 ''semver: patch'')
                (issue_labels (ext ?w)))
            @ (if utf16 ''semver: patch'' \<in> set (issue_labels (ext ?w)) then []
               else GetLabel (utf16 ''semver: patch'')
                 # (if utf16 ''semver: patch'' \<in> set (repo_labels (ext ?w)) then []
                    else [CreateLabel (utf16 ''semver: patch'') (utf16 ''ededed'') (utf16 ''Semver required update'')])
                 @ [AddLabels [utf16 ''semver: patch'']])"
    by (rule conjunct1 [OF conjunct2 [OF conjunct2 [OF conjunct2]]])
  have "calls (ext ?w) @ ListLabelsOnIssue
            # map RemoveLabel (filter (\<lambda>l. starts_with False (utf16 ''semver: '') l \<and> l \<noteq> utf16 ''semver: patch'')
                (issue_labels (ext ?w)))
            @ (if utf16 ''semver: patch'' \<in> set (issue_labels (ext ?w)) then []
               else GetLabel (utf16 ''semver: patch'')
                 # (if utf16 ''semver: patch'' \<in> set (repo_labels (ext ?w)) then []
                    else [CreateLabel (utf16 ''semver: patch'') (utf16 ''ededed'') (utf16 ''Semver required update'')])
                 @ [AddLabels [utf16 ''semver: patch'']])
      = [ListLabelsOnIssue, RemoveLabel (utf16 ''semver: major''), GetLabel (utf16 ''semver: patch''),
         CreateLabel (utf16 ''semver: patch'') (utf16 ''ededed'') (utf16 ''Semver required update''),
         AddLabels [utf16 ''semver: patch'']]"
    by (simp add: utf16_def Canonicalize_def)
  with c have c': "calls (ext (snd ?U))
      = [ListLabelsOnIssue, RemoveLabel (utf16 ''semver: major''), GetLabel (utf16 ''semver: patch''),
         CreateLabel (utf16 ''semver: patch'') (utf16 ''ededed'') (utf16 ''Semver required update''),
         AddLabels [utf16 ''semver: patch'']]"
    by (rule trans)
  from p d' r s' c' show ?thesis
    by (intro conjI)
qed

text \<open>
  C7 as stated fails in its last clause: with \<open>semver: major\<close> and \<open>semver: patch\<close> both
  attached and \<open>semver: patch\<close> the new label, the new label is already present and yet
  \<open>semver: major\<close> is removed.
\<close>

theorem label_already_present_counterexample:
  "utf16 ''semver: patch'' \<in> set [utf16 ''semver: major'', utf16 ''semver: patch'']
   \<and> issue_labels (ext (snd (upsertSemverLabel reference_octokit (utf16 ''o'') (utf16 ''r'') (Integer 7)
        (utf16 ''semver: '') (utf16 ''semver: patch'')
        \<lparr>trace = [], ext = \<lparr>open_pulls = (\<lambda>h. []), commit_pulls = (\<lambda>s. []), pull_by_number = (\<lambda>n. None),
           issue_labels = [utf16 ''semver: major'', utf16 ''semver: patch''],
           repo_labels = [utf16 ''semver: major'', utf16 ''semver: patch''], calls = []\<rparr>\<rparr>)))
      = [utf16 ''semver: patch'']
   \<and> calls (ext (snd (upsertSemverLabel reference_octokit (utf16 ''o'') (utf16 ''r'') (Integer 7)
        (utf16 ''semver: '') (utf16 ''semver: patch'')
        \<lparr>trace = [], ext = \<lparr>open_pulls = (\<lambda>h. []), commit_pulls = (\<lambda>s. []), pull_by_number = (\<lambda>n. None),
           issue_labels = [utf16 ''semver: major'', utf16 ''semver: patch''],
           repo_labels = [utf16 ''semver: major'', utf16 ''semver: patch''], calls = []\<rparr>\<rparr>)))
      = [ListLabelsOnIssue, RemoveLabel (utf16 ''semver: major'')]"
  by (simp add: upsertSemverLabel_def removeLabelIfExists_def io_defs reference_octokit_simps Let_def
        Set_add_def utf16_def Canonicalize_def received_def emit_def)

section \<open>Claims about the context resolver\<close>

lemma trace_blindI: "(\<And>w w'. ext w = ext w' \<Longrightarrow> outcome (m w) = outcome (m w')) \<Longrightarrow> trace_blind m"
  unfolding trace_blind_def by blast

lemma trace_blindD: "trace_blind m \<Longrightarrow> ext w = ext w' \<Longrightarrow> outcome (m w) = outcome (m w')"
  unfolding trace_blind_def by blast

lemma outcome_eq_iff: "outcome r = outcome r' \<longleftrightarrow> fst r = fst r' \<and> ext (snd r) = ext (snd r')"
  by (simp add: outcome_def)

lemma trace_blind_return [intro!, simp]: "trace_blind (io_return x)"
  by (simp add: trace_blind_def outcome_def io_return_def)

lemma trace_blind_throw [intro!, simp]: "trace_blind (io_throw e)"
  by (simp add: trace_blind_def outcome_def io_throw_def)

lemma trace_blind_log [intro!, simp]: "trace_blind (log e)"
  by (simp add: trace_blind_def outcome_def log_def)

lemma trace_blind_call [intro!, simp]: "trace_blind (call h)"
  by (auto simp: trace_blind_def outcome_def call_def split: prod.splits)

lemma trace_blind_bind [intro!]:
  assumes "trace_blind m" and "\<And>x. trace_blind (f x)"
  shows "trace_blind (io_bind m f)"
proof (rule trace_blindI)
  fix w w' :: "'a world"
  assume e: "ext w = ext w'"
  from trace_blindD [OF assms(1) e] have m: "fst (m w) = fst (m w')" "ext (snd (m w)) = ext (snd (m w'))"
    by (simp_all add: outcome_eq_iff)
  show "outcome (io_bind m f w) = outcome (io_bind m f w')"
  proof (cases "fst (m w)")
    case (Inl err)
    with m show ?thesis
      by (cases "m w"; cases "m w'") (simp add: io_bind_def outcome_def)
  next
    case (Inr x)
    with m trace_blindD [OF assms(2), of "snd (m w)" "snd (m w')" x] show ?thesis
      by (cases "m w"; cases "m w'") (simp add: io_bind_def)
  qed
qed

lemma trace_blind_then [intro!]: "trace_blind m \<Longrightarrow> trace_blind k \<Longrightarrow> trace_blind (io_then m k)"
  unfolding io_then_def by (rule trace_blind_bind)

lemma trace_blind_when [intro!]: "trace_blind m \<Longrightarrow> trace_blind (io_when b m)"
  by (simp add: io_when_def)

lemma trace_blind_if [intro!]: "trace_blind m \<Longrightarrow> trace_blind k \<Longrightarrow> trace_blind (if b then m else k)"
  by simp

lemma trace_blind_resolve_base [intro!, simp]:
  "trace_blind (resolve_base octokit owner repo prNumber baseSha)"
  unfolding resolve_base_def
  by (auto split: option.splits intro!: trace_blind_bind)

lemma trace_blind_resolve_from_head_sha [intro!, simp]:
  "trace_blind (resolve_from_head_sha ctx octokit owner repo workflowRun prNumber baseSha)"
  unfolding resolve_from_head_sha_def
  by (auto split: option.splits list.splits intro!: trace_blind_bind trace_blind_then)

lemma trace_blind_resolve_from_head_branch [intro!, simp]:
  "trace_blind (resolve_from_head_branch ctx octokit owner repo workflowRun baseSha)"
  unfolding resolve_from_head_branch_def Let_def
  by (auto split: option.splits list.splits prod.splits intro!: trace_blind_bind trace_blind_then)

lemma outcome_log_then:
  "trace_blind m \<Longrightarrow> outcome (io_then (log e) m w) = outcome (m w)"
  using trace_blindD [of m "emit e w" w]
  by (simp add: io_then_def io_bind_def log_def)

lemma outcome_when_log_then:
  "trace_blind m \<Longrightarrow> outcome (io_then (io_when b (log e)) m w) = outcome (m w)"
  using outcome_log_then [of m e w]
  by (simp add: io_when_def io_then_def io_bind_def io_return_def)

lemma outcome_bind_call:
  "outcome (io_bind (call h) f w) =
     (case h (ext w) of (Inl e, x) \<Rightarrow> (Inl e, x) | (Inr v, x) \<Rightarrow> outcome (f v (w\<lparr>ext := x\<rparr>)))"
  by (simp add: io_bind_def call_def outcome_def split: prod.splits sum.splits)

lemma event_names_differ: "utf16 ''workflow_run'' \<noteq> utf16 ''pull_request''"
  by (simp add: utf16_def)

lemma resolvePrContext_workflow_run:
  assumes "eventName ctx = utf16 ''workflow_run''" and "payload_workflow_run ctx = Some workflowRun"
  shows "resolvePrContext ctx octokit owner repo =
     io_then (io_when (isDebug ctx) (log (Debug (utf16 ''Event name: '' @ eventName ctx))))
       (io_then (io_when (isDebug ctx)
          (let headRepo = head_repository workflowRun;
               headRepoName = (case headRepo of None \<Rightarrow> utf16 ''unknown''
                  | Some hr \<Rightarrow> or_text (or_else (full_name hr) (repo_name hr)) (utf16 ''unknown''))
           in log (Debug (utf16 ''workflow_run id=''
                @ (case run_id workflowRun of None \<Rightarrow> utf16 ''unknown''
                   | Some i \<Rightarrow> if i = 0 then utf16 ''unknown'' else String_nat i)
                @ utf16 '' head_sha='' @ or_text (head_sha workflowRun) (utf16 ''n/a'')
                @ utf16 '' head_branch='' @ or_text (head_branch workflowRun) (utf16 ''n/a'')
                @ utf16 '' head_repo='' @ headRepoName))))
        (if conclusion workflowRun \<noteq> Some (utf16 ''success'')
         then
           let rendered = or_text (conclusion workflowRun) (utf16 ''unknown'')
           in io_return (Skip (utf16 ''workflow_run conclusion is '' @ rendered
                @ utf16 ''; skipping semver checks.''))
         else
           let pullRequests = (case pull_requests workflowRun of None \<Rightarrow> [] | Some prs \<Rightarrow> prs);
               baseSha = (case pullRequests of [] \<Rightarrow> None | pr # _ \<Rightarrow> base_sha pr)
           in io_bind
                (case pullRequests of
                   [pr] \<Rightarrow> io_return (number pr, baseSha)
                 | [] \<Rightarrow>
                     io_bind (resolve_from_head_branch ctx octokit owner repo workflowRun baseSha)
                       (\<lambda>(prNumber, baseSha').
                          resolve_from_head_sha ctx octokit owner repo workflowRun prNumber baseSha')
                 | _ \<Rightarrow> io_throw (Error (utf16 ''workflow_run must have exactly one pull request, found ''
                           @ String_nat (length pullRequests) @ utf16 ''.'')))
                (\<lambda>(prNumber, baseSha'). resolve_base octokit owner repo prNumber baseSha')))"
  unfolding resolvePrContext_def using assms event_names_differ by simp

lemma when_log_then:
  "io_then (io_when b (log e)) m w = m (if b then emit e w else w)"
  by (simp add: io_defs)

lemma let_log: "(let a = x; b = f a in log (g a b)) = log (let a = x; b = f a in g a b)"
  by (simp add: Let_def)

lemma resolvePrContext_skip:
  assumes "eventName ctx = utf16 ''workflow_run''" and "payload_workflow_run ctx = Some workflowRun"
    and "conclusion workflowRun \<noteq> Some (utf16 ''success'')"
  shows "\<exists>w'. resolvePrContext ctx octokit owner repo w =
           (Inr (Skip (utf16 ''workflow_run conclusion is '' @ or_text (conclusion workflowRun) (utf16 ''unknown'')
              @ utf16 ''; skipping semver checks.'')), w')
         \<and> ext w' = ext w \<and> (\<not> isDebug ctx \<longrightarrow> w' = w)
         \<and> (\<forall>octokit'. resolvePrContext ctx octokit' owner repo w =
               resolvePrContext ctx octokit owner repo w)"
  unfolding resolvePrContext_workflow_run [OF assms(1,2)] let_log when_log_then
  using assms(3) by (simp add: io_return_def Let_def)

text \<open>
  C4. A \<open>workflow_run\<close> event whose conclusion is not \<open>success\<close> is skipped: the resolver
  returns \<open>Skip\<close> with the reason that names the conclusion, \<open>unknown\<close> when there is none.
  It calls nothing: the state of the platform is as before, and the result is the same
  whatever the client's lookups would do. Outside debug mode nothing is logged either.
\<close>

theorem unsuccessful_run_is_skipped:
  assumes "eventName ctx = utf16 ''workflow_run''"
    and "payload_workflow_run ctx = Some workflowRun"
    and "conclusion workflowRun \<noteq> Some (utf16 ''success'')"
  shows "fst (resolvePrContext ctx octokit owner repo w) =
           Inr (Skip (utf16 ''workflow_run conclusion is ''
             @ (case conclusion workflowRun of None \<Rightarrow> utf16 ''unknown''
                | Some c \<Rightarrow> if c = [] then utf16 ''unknown'' else c)
             @ utf16 ''; skipping semver checks.''))
         \<and> ext (snd (resolvePrContext ctx octokit owner repo w)) = ext w
         \<and> (\<not> isDebug ctx \<longrightarrow> snd (resolvePrContext ctx octokit owner repo w) = w)
         \<and> resolvePrContext ctx octokit' owner repo w = resolvePrContext ctx octokit owner repo w"
proof -
  from resolvePrContext_skip [OF assms, of octokit owner repo w]
  obtain w' where r: "resolvePrContext ctx octokit owner repo w =
           (Inr (Skip (utf16 ''workflow_run conclusion is '' @ or_text (conclusion workflowRun) (utf16 ''unknown'')
              @ utf16 ''; skipping semver checks.'')), w')"
    and e: "ext w' = ext w" and d: "\<not> isDebug ctx \<longrightarrow> w' = w"
    and o: "\<forall>octokit'. resolvePrContext ctx octokit' owner repo w =
               resolvePrContext ctx octokit owner repo w"
    by (elim exE conjE)
  have t: "or_text (conclusion workflowRun) (utf16 ''unknown'') =
      (case conclusion workflowRun of None \<Rightarrow> utf16 ''unknown''
                | Some c \<Rightarrow> if c = [] then utf16 ''unknown'' else c)"
    by (simp add: or_text_def split: option.splits)
  from r e d o t show ?thesis by simp
qed

theorem unsuccessful_run_is_skipped_witness:
  "resolvePrContext
     (example_context (utf16 ''workflow_run'') None
        (Some (example_run (Some (utf16 ''failure'')) [] (Some (utf16 ''4f2a'')))))
     reference_octokit (utf16 ''rust-lang'') (utf16 ''libc'') \<lparr>trace = [], ext = empty_platform\<rparr>
   = (Inr (Skip (utf16 ''workflow_run conclusion is failure; skipping semver checks.'')),
      \<lparr>trace = [], ext = empty_platform\<rparr>)
   \<and> calls empty_platform = []"
proof -
  let ?wr = "example_run (Some (utf16 ''failure'')) [] (Some (utf16 ''4f2a''))"
  let ?ctx = "example_context (utf16 ''workflow_run'') None (Some ?wr)"
  let ?w = "\<lparr>trace = [], ext = empty_platform\<rparr>"
  have a: "eventName ?ctx = utf16 ''workflow_run''" "payload_workflow_run ?ctx = Some ?wr"
    "\<not> isDebug ?ctx"
    by (simp_all add: example_context_def)
  have b: "conclusion ?wr \<noteq> Some (utf16 ''success'')" "conclusion ?wr = Some (utf16 ''failure'')"
    by (simp_all add: example_run_def utf16_def)
  have c: "utf16 ''failure'' \<noteq> []" 
    "utf16 ''workflow_run conclusion is '' @ utf16 ''failure'' @ utf16 ''; skipping semver checks.''
       = utf16 ''workflow_run conclusion is failure; skipping semver checks.''"
    by (simp_all add: utf16_def)
  from unsuccessful_run_is_skipped [OF a(1,2) b(1), of reference_octokit "utf16 ''rust-lang''" "utf16 ''libc''" ?w]
  have "fst (resolvePrContext ?ctx reference_octokit (utf16 ''rust-lang'') (utf16 ''libc'') ?w)
      = Inr (Skip (utf16 ''workflow_run conclusion is failure; skipping semver checks.''))"
    and "snd (resolvePrContext ?ctx reference_octokit (utf16 ''rust-lang'') (utf16 ''libc'') ?w) = ?w"
    using a(3) b(2) c by simp_all
  then show ?thesis
    by (simp add: prod_eq_iff empty_platform_def)
qed

lemma outcome_pair [simp]: "outcome (r, w) = (r, ext w)"
  by (simp add: outcome_def)

lemma outcome_resolve_base:
  "ext w = ext w' \<Longrightarrow> outcome (resolve_base octokit owner repo n b w) = outcome (resolve_base octokit owner repo n b w')"
  by (rule trace_blindD [OF trace_blind_resolve_base])

lemma resolve_base_or_else_None:
  "resolve_base octokit owner repo n (or_else b None) = resolve_base octokit owner repo n b"
proof (cases "truthy b")
  case True
  then show ?thesis by (simp add: or_else_def)
next
  case False
  have "\<not> truthy None" by (simp add: truthy_def)
  with False show ?thesis
    by (cases n) (simp_all add: resolve_base_def or_else_def)
qed

lemma resolve_from_head_sha_falsy:
  "\<not> truthy_number n \<Longrightarrow> resolve_from_head_sha ctx octokit owner repo workflowRun n b
     = resolve_from_head_sha ctx octokit owner repo workflowRun None b"
  by (simp add: resolve_from_head_sha_def truthy_number_def)

lemma resolve_from_head_sha_truthy:
  "truthy_number n \<Longrightarrow> resolve_from_head_sha ctx octokit owner repo workflowRun n b = io_return (n, b)"
  by (simp add: resolve_from_head_sha_def)

lemma commit_stage:
  "outcome (io_bind (resolve_from_head_sha ctx octokit owner repo workflowRun None b)
              (\<lambda>(n, b'). resolve_base octokit owner repo n b') w) =
     (if \<not> truthy (head_sha workflowRun) then (Inl (Error (utf16 ''workflow_run is missing head_sha.'')), ext w)
      else (case repos_listPullRequestsAssociatedWithCommit octokit owner repo (the (head_sha workflowRun)) (ext w) of
              (Inl e, x) \<Rightarrow> (Inl e, x)
            | (Inr [p], x) \<Rightarrow>
                outcome (resolve_base octokit owner repo (number p) (or_else (base_sha p) b) (w\<lparr>ext := x\<rparr>))
            | (Inr ps, x) \<Rightarrow> (Inl (Error (utf16 ''Unable to resolve PR from head_sha; found ''
                                @ String_nat (length ps) @ utf16 ''.'')), x)))"
  unfolding resolve_from_head_sha_def
  by (auto simp: io_defs truthy_def truthy_number_def split: option.splits prod.splits sum.splits list.splits
      intro!: outcome_resolve_base)

lemma io_bind_assoc: "io_bind (io_bind m f) g = io_bind m (\<lambda>x. io_bind (f x) g)"
  by (rule ext) (simp add: io_bind_def split: prod.splits sum.splits)

lemma io_bind_return: "io_bind (io_return x) f = f x"
  by (rule ext) (simp add: io_bind_def io_return_def)

lemma io_bind_throw: "io_bind (io_throw e) f = io_throw e"
  by (rule ext) (simp add: io_bind_def io_throw_def)

lemma branch_stage_gen:
  assumes "\<And>n b. trace_blind (F n b)"
  shows "outcome (io_bind (resolve_from_head_branch ctx octokit owner repo workflowRun b0) (\<lambda>(n, b). F n b) w) =
     (if truthy (headOwner_of workflowRun) \<and> truthy (head_branch workflowRun)
      then (case pulls_list octokit owner repo
                   (the (headOwner_of workflowRun) @ utf16 '':'' @ the (head_branch workflowRun))
                   (utf16 ''open'') (ext w) of
              (Inl e, x) \<Rightarrow> (Inl e, x)
            | (Inr [], x) \<Rightarrow> outcome (F None b0 (w\<lparr>ext := x\<rparr>))
            | (Inr [h], x) \<Rightarrow> outcome (F (number h) (or_else (base_sha h) b0) (w\<lparr>ext := x\<rparr>))
            | (Inr hs, x) \<Rightarrow> (Inl (Error (utf16 ''Unable to resolve PR from head ref; found ''
                                @ String_nat (length hs) @ utf16 ''.'')), x))
      else outcome (F None b0 w))"
proof -
  have F: "\<And>n b w w'. ext w = ext w' \<Longrightarrow> outcome (F n b w) = outcome (F n b w')"
    using assms by (rule trace_blindD)
  show ?thesis
    unfolding resolve_from_head_branch_def Let_def
    by (auto simp: io_defs truthy_def split: option.splits prod.splits sum.splits list.splits
        intro!: F)
qed

lemma resolvePrContext_success:
  assumes "eventName ctx = utf16 ''workflow_run''" and "payload_workflow_run ctx = Some workflowRun"
    and "conclusion workflowRun = Some (utf16 ''success'')"
  shows "outcome (resolvePrContext ctx octokit owner repo w) =
     outcome (io_bind
        (case (case pull_requests workflowRun of None \<Rightarrow> [] | Some prs \<Rightarrow> prs) of
           [pr] \<Rightarrow> io_return (number pr, base_sha pr)
         | [] \<Rightarrow>
             io_bind (resolve_from_head_branch ctx octokit owner repo workflowRun None)
               (\<lambda>(prNumber, baseSha').
                  resolve_from_head_sha ctx octokit owner repo workflowRun prNumber baseSha')
         | prs \<Rightarrow> io_throw (Error (utf16 ''workflow_run must have exactly one pull request, found ''
                   @ String_nat (length prs) @ utf16 ''.'')))
        (\<lambda>(prNumber, baseSha'). resolve_base octokit owner repo prNumber baseSha') w)"
    (is "_ = outcome (?m w)")
proof -
  have tb: "trace_blind ?m"
    by (auto split: list.splits prod.splits intro!: trace_blind_bind)
  have "resolvePrContext ctx octokit owner repo =
     io_then (io_when (isDebug ctx) (log (Debug (utf16 ''Event name: '' @ eventName ctx))))
       (io_then (io_when (isDebug ctx)
          (log (let headRepo = head_repository workflowRun;
               headRepoName = (case headRepo of None \<Rightarrow> utf16 ''unknown''
                  | Some hr \<Rightarrow> or_text (or_else (full_name hr) (repo_name hr)) (utf16 ''unknown''))
           in Debug (utf16 ''workflow_run id=''
                @ (case run_id workflowRun of None \<Rightarrow> utf16 ''unknown''
                   | Some i \<Rightarrow> if i = 0 then utf16 ''unknown'' else String_nat i)
                @ utf16 '' head_sha='' @ or_text (head_sha workflowRun) (utf16 ''n/a'')
                @ utf16 '' head_branch='' @ or_text (head_branch workflowRun) (utf16 ''n/a'')
                @ utf16 '' head_repo='' @ headRepoName))))
        ?m)"
    unfolding resolvePrContext_workflow_run [OF assms(1,2)] let_log
    using assms(3) by (simp add: Let_def split: list.splits)
  then show ?thesis
    by (simp add: outcome_when_log_then tb trace_blind_then trace_blind_when)
qed

text \<open>
  C3. A \<open>workflow_run\<close> event that concluded with success. \<open>base n b x\<close> is the last step of
  the resolver (lines 482 to 499) for the PR number \<open>n\<close> and base commit \<open>b\<close>, from the
  platform state \<open>x\<close>. One correlated PR is used as it is. More than one is the error
  that names their count. With none, and head owner and branch known, the open pull
  requests of \<open>owner:branch\<close> are listed: one with a number is used, more than one is an
  error, none (or one without a number) goes on to the lookup by commit; so does an unknown
  head owner or branch. The lookup by commit throws when the run has no \<open>head_sha\<close>,
  uses the one pull request associated with the commit, and throws for any other count.
  An error of a lookup itself is thrown on.
\<close>

theorem successful_run_case_analysis:
  fixes octokit :: "'x Octokit" and owner repo :: jsstring and w :: "'x world"
    and ctx :: action_context and workflowRun :: workflow_run_payload
  assumes "eventName ctx = utf16 ''workflow_run''"
    and "payload_workflow_run ctx = Some workflowRun"
    and "conclusion workflowRun = Some (utf16 ''success'')"
  defines "base \<equiv> \<lambda>n b x. outcome (resolve_base octokit owner repo n b (w\<lparr>ext := x\<rparr>))"
  defines "by_commit \<equiv> \<lambda>b x.
     if \<not> truthy (head_sha workflowRun)
     then (Inl (Error (utf16 ''workflow_run is missing head_sha.'')), x)
     else (case repos_listPullRequestsAssociatedWithCommit octokit owner repo (the (head_sha workflowRun)) x of
             (Inl e, x') \<Rightarrow> (Inl e, x')
           | (Inr [p], x') \<Rightarrow> base (number p) (or_else (base_sha p) b) x'
           | (Inr ps, x') \<Rightarrow> (Inl (Error (utf16 ''Unable to resolve PR from head_sha; found ''
                                  @ String_nat (length ps) @ utf16 ''.'')), x'))"
  shows "outcome (resolvePrContext ctx octokit owner repo w) =
     (case (case pull_requests workflowRun of None \<Rightarrow> [] | Some prs \<Rightarrow> prs) of
        [pr] \<Rightarrow> base (number pr) (base_sha pr) (ext w)
      | [] \<Rightarrow>
          if truthy (headOwner_of workflowRun) \<and> truthy (head_branch workflowRun)
          then (case pulls_list octokit owner repo
                       (the (headOwner_of workflowRun) @ utf16 '':'' @ the (head_branch workflowRun))
                       (utf16 ''open'') (ext w) of
                  (Inl e, x) \<Rightarrow> (Inl e, x)
                | (Inr [], x) \<Rightarrow> by_commit None x
                | (Inr [h], x) \<Rightarrow>
                    if truthy_number (number h) then base (number h) (base_sha h) x
                    else by_commit (or_else (base_sha h) None) x
                | (Inr hs, x) \<Rightarrow> (Inl (Error (utf16 ''Unable to resolve PR from head ref; found ''
                                    @ String_nat (length hs) @ utf16 ''.'')), x))
          else by_commit None (ext w)
      | prs \<Rightarrow> (Inl (Error (utf16 ''workflow_run must have exactly one pull request, found ''
                   @ String_nat (length prs) @ utf16 ''.'')), ext w))"
proof -
  let ?K = "\<lambda>(prNumber, baseSha'). resolve_base octokit owner repo prNumber baseSha'"
  let ?F = "\<lambda>n b. io_bind (resolve_from_head_sha ctx octokit owner repo workflowRun n b) ?K"
  have tb: "\<And>n b. trace_blind (?F n b)"
    by (auto split: prod.splits intro!: trace_blind_bind)
  have commit: "\<And>n b x. \<not> truthy_number n \<Longrightarrow> outcome (?F n b (w\<lparr>ext := x\<rparr>)) = by_commit b x"
    unfolding by_commit_def base_def
    by (auto simp: resolve_from_head_sha_falsy commit_stage split: prod.splits sum.splits list.splits)
  have known: "\<And>n b x. truthy_number n \<Longrightarrow> outcome (?F n b (w\<lparr>ext := x\<rparr>)) = base n b x"
    unfolding base_def by (simp add: resolve_from_head_sha_truthy io_bind_return)
  have none: "\<not> truthy_number None"
    by (simp add: truthy_number_def)
  have same: "w\<lparr>ext := ext w\<rparr> = w"
    by simp
  show ?thesis
  proof (cases "case pull_requests workflowRun of None \<Rightarrow> [] | Some prs \<Rightarrow> prs")
    case Nil
    have "outcome (resolvePrContext ctx octokit owner repo w) =
        outcome (io_bind (resolve_from_head_branch ctx octokit owner repo workflowRun None) (\<lambda>(n, b). ?F n b) w)"
      unfolding resolvePrContext_success [OF assms(1,2,3)] Nil
      by (simp add: io_bind_assoc split_def)
    also note branch_stage_gen [of ?F, OF tb]
    finally show ?thesis
      unfolding Nil using commit [of None None "ext w"] none
      by (auto simp: same commit known resolve_base_or_else_None base_def
          split: prod.splits sum.splits list.splits)
  next
    case (Cons pr rest)
    show ?thesis
      unfolding resolvePrContext_success [OF assms(1,2,3)] Cons
      by (cases rest) (simp_all add: io_bind_return io_bind_throw io_throw_def base_def)
  qed
qed

theorem successful_run_case_analysis_witness:
  "outcome (resolvePrContext
     (example_context (utf16 ''workflow_run'') None
        (Some (example_run (Some (utf16 ''success'')) [] (Some (utf16 ''4f2a'')))))
     reference_octokit (utf16 ''rust-lang'') (utf16 ''libc'')
     \<lparr>trace = [], ext = empty_platform\<lparr>commit_pulls :=
        (\<lambda>sha. [\<lparr>number = Some (Integer 7), base_sha = Some (utf16 ''9c1d'')\<rparr>])\<rparr>\<rparr>)
   = (Inr (Proceed (Integer 7) (utf16 ''9c1d'')),
      empty_platform\<lparr>commit_pulls := (\<lambda>sha. [\<lparr>number = Some (Integer 7), base_sha = Some (utf16 ''9c1d'')\<rparr>]),
        calls := [PullsList (utf16 ''fork:topic'') (utf16 ''open''),
                  ListPullRequestsAssociatedWithCommit (utf16 ''4f2a'')]\<rparr>)"
proof -
  let ?wr = "example_run (Some (utf16 ''success'')) [] (Some (utf16 ''4f2a''))"
  let ?ctx = "example_context (utf16 ''workflow_run'') None (Some ?wr)"
  let ?p = "empty_platform\<lparr>commit_pulls := (\<lambda>sha. [\<lparr>number = Some (Integer 7), base_sha = Some (utf16 ''9c1d'')\<rparr>])\<rparr>"
  have a: "eventName ?ctx = utf16 ''workflow_run''" "payload_workflow_run ?ctx = Some ?wr"
    by (simp_all add: example_context_def)
  have b: "conclusion ?wr = Some (utf16 ''success'')"
    by (simp add: example_run_def)
  have c: "pull_requests ?wr = Some []" "headOwner_of ?wr = Some (utf16 ''fork'')"
    "head_branch ?wr = Some (utf16 ''topic'')" "head_sha ?wr = Some (utf16 ''4f2a'')"
    by (simp_all add: example_run_def headOwner_of_def or_else_def truthy_def utf16_def)
  have d: "truthy (Some (utf16 ''fork''))" "truthy (Some (utf16 ''topic''))" "truthy (Some (utf16 ''4f2a''))"
    "truthy (Some (utf16 ''9c1d''))" "utf16 ''9c1d'' \<noteq> []"
    "utf16 ''fork'' @ utf16 '':'' @ utf16 ''topic'' = utf16 ''fork:topic''"
    by (simp_all add: truthy_def utf16_def)
  from successful_run_case_analysis [OF a b, of reference_octokit "utf16 ''rust-lang''" "utf16 ''libc''"
      "\<lparr>trace = [], ext = ?p\<rparr>"]
  show ?thesis
    by (simp add: c d reference_octokit_simps resolve_base_def or_else_def io_defs
        empty_platform_def received_def)
qed

lemma resolve_base_eq:
  "resolve_base octokit owner repo prNumber baseSha w =
     (if \<not> truthy_number prNumber
      then (Inl (Error (utf16 ''workflow_run pull_request is missing number.'')), w)
      else if truthy baseSha then (Inr (Proceed (the prNumber) (the baseSha)), w)
      else (case pulls_get octokit owner repo (the prNumber) (ext w) of
              (Inl e, x) \<Rightarrow> (Inl e, w\<lparr>ext := x\<rparr>)
            | (Inr pr, x) \<Rightarrow>
                if truthy (base_sha pr) then (Inr (Proceed (the prNumber) (the (base_sha pr))), w\<lparr>ext := x\<rparr>)
                else (Inl (Error (utf16 ''Unable to determine the PR base SHA.'')), w\<lparr>ext := x\<rparr>)))"
  by (auto simp: resolve_base_def io_defs truthy_def truthy_number_def or_else_def
      split: option.splits prod.splits sum.splits)










section \<open>Claims about the retry policy\<close>

lemma withRetries_from_last:
  "withRetries_from 3 operation label 3 w = operation w"
  by (subst withRetries_from.simps) (simp split: prod.splits sum.splits)

lemma String_nat_digit: "n < 10 \<Longrightarrow> String_nat n = [48 + n]"
  by (simp add: String_nat.simps)

lemma withRetries_default:
  "withRetries operation label default_maxAttempts w =
     (case operation w of
        (Inr x, w1) \<Rightarrow> (Inr x, w1)
      | (Inl e1, w1) \<Rightarrow>
          if \<not> isRetryableError e1 then (Inl e1, w1)
          else (case operation
                  (emit (Sleep 1000)
                    (emit (Warning (label @ utf16 '' failed ('' @ message_of e1 @ utf16 ''). Retrying (1/3)...'')) w1)) of
                  (Inr x, w2) \<Rightarrow> (Inr x, w2)
                | (Inl e2, w2) \<Rightarrow>
                    if \<not> isRetryableError e2 then (Inl e2, w2)
                    else operation
                      (emit (Sleep 2000)
                        (emit (Warning (label @ utf16 '' failed ('' @ message_of e2 @ utf16 ''). Retrying (2/3)...'')) w2))))"
proof -
  have two: "withRetries_from 2 operation label 3 w' =
     (case operation w' of
        (Inr x, w2) \<Rightarrow> (Inr x, w2)
      | (Inl e2, w2) \<Rightarrow>
          if \<not> isRetryableError e2 then (Inl e2, w2)
          else operation
            (emit (Sleep 2000)
              (emit (Warning (label @ utf16 '' failed ('' @ message_of e2 @ utf16 ''). Retrying (2/3)...'')) w2)))" for w'
    by (subst withRetries_from.simps)
      (simp add: withRetries_from_last String_nat_digit utf16_def Let_def split: prod.splits sum.splits)
  have one: "Suc (Suc 0) = 2"
    by simp
  show ?thesis
    unfolding withRetries_def default_maxAttempts_def
    by (subst withRetries_from.simps)
      (simp add: two String_nat_digit utf16_def Let_def one del: One_nat_def split: prod.splits sum.splits)
qed

lemma isRetryableError_iff:
  "isRetryableError e \<longleftrightarrow> (\<exists>msg s cd. e = ErrorObject msg (Some s) cd \<and> s \<in> {502, 503, 504})"
  by (cases e) (auto simp: RETRYABLE_STATUS_CODES_def split: option.splits)

lemma run_body_resolution:
  assumes "getInput ctx (utf16 ''github-token'') \<noteq> []"
  shows "withRetries (resolvePrContext ctx octokit (context_owner ctx) (context_repo ctx))
           (utf16 ''Resolve PR context'') default_maxAttempts w = (Inl e, w')
         \<Longrightarrow> run_body ctx sys octokit w = (Inl e, w')"
    and "withRetries (resolvePrContext ctx octokit (context_owner ctx) (context_repo ctx))
           (utf16 ''Resolve PR context'') default_maxAttempts w = (Inr (Skip reason), w')
         \<Longrightarrow> run_body ctx sys octokit w = (Inr (), emit (Info reason) w')"
  using assms
  by (simp_all add: run_body_def Let_def getInput_required_def io_bind_def io_return_def log_def)

lemma apply_label_eq:
  "apply_label octokit owner repo prNumber labelPrefix semverType w =
     (case withRetries
             (upsertSemverLabel octokit owner repo prNumber labelPrefix (labelPrefix @ SemverType_string semverType))
             (utf16 ''Apply semver label'') default_maxAttempts
             (emit (Info (utf16 ''Applying label '' @ [34] @ labelPrefix @ SemverType_string semverType @ [34]
                      @ utf16 '' to PR #'' @ String_number prNumber @ utf16 ''...''))
               (emit (Info (utf16 ''Determined semver type: '' @ SemverType_string semverType)) w)) of
        (Inl e, w') \<Rightarrow> (Inl e, w')
      | (Inr u, w') \<Rightarrow>
          (Inr (), emit (SetOutput (utf16 ''semver-type'') (SemverType_string semverType))
                     (emit (Info (utf16 ''Label applied successfully.'')) w')))"
  by (simp add: apply_label_def Let_def io_then_def io_bind_def log_def split: prod.splits sum.splits)

lemma installFromRelease_download_fails:
  assumes "getTargetTriple ctx = Some triple" and "version \<noteq> DEFAULT_CARGO_SEMVER_CHECKS_VERSION"
    and "httpsGet sys
          (GITHUB_RELEASES_BASE @ utf16 ''/download/''
             @ (if starts_with False (utf16 ''v'') version then version else utf16 ''v'' @ version)
             @ utf16 ''/'' @ utf16 ''cargo-semver-checks-'' @ triple @ utf16 ''.''
             @ (if os_platform ctx = utf16 ''win32'' then utf16 ''zip'' else utf16 ''tar.gz''))
          (ext w) = (Inl e, x)"
  shows "installFromRelease ctx sys version w =
     (Inl e, (emit (Info (utf16 ''Downloading: '' @ GITHUB_RELEASES_BASE @ utf16 ''/download/''
             @ (if starts_with False (utf16 ''v'') version then version else utf16 ''v'' @ version)
             @ utf16 ''/'' @ utf16 ''cargo-semver-checks-'' @ triple @ utf16 ''.''
             @ (if os_platform ctx = utf16 ''win32'' then utf16 ''zip'' else utf16 ''tar.gz''))) w)\<lparr>ext := x\<rparr>)"
  using assms
  by (simp add: installFromRelease_def Let_def io_then_def io_bind_def io_return_def log_def call_def)

lemma installFromRelease_latest_fails:
  assumes "getTargetTriple ctx = Some triple"
    and "getLatestVersion sys (ext w) = (Inl e, x)"
  shows "installFromRelease ctx sys DEFAULT_CARGO_SEMVER_CHECKS_VERSION w =
     (Inl e, (emit (Info (utf16 ''Resolving latest version...'')) w)\<lparr>ext := x\<rparr>)"
  using assms
  by (simp add: installFromRelease_def Let_def io_then_def io_bind_def io_return_def log_def call_def)

lemma installCargoSemverChecks_fallback:
  assumes "spawnSync sys (utf16 ''cargo'') [utf16 ''--version''] \<lparr>opt_cwd = Some cwd, opt_env = None\<rparr> (ext w)
      = (cargoCheck, x)"
    and "error cargoCheck = None" and "status cargoCheck = Some 0"
    and "getTargetTriple ctx = Some triple"
    and "installFromRelease ctx sys version
           (emit (Info (utf16 ''Cargo version: '' @ trim (stdout cargoCheck))) (w\<lparr>ext := x\<rparr>)) = (Inl e, w')"
  shows "installCargoSemverChecks ctx sys version cwd toolchain True w =
     installWithCargo ctx sys version cwd toolchain
       (emit (Warning (utf16 ''Failed to install from release: '' @ message_of e
          @ utf16 ''. Falling back to cargo install.'')) w')"
  using assms
  by (simp add: installCargoSemverChecks_def runCommand_def io_defs)

text \<open>
  C6, amended. The retry policy \<open>withRetries\<close> with its default of three attempts: an
  attempt that throws an error object with status 502, 503 or 504 is followed by a warning,
  a wait of as many seconds as attempts made, and the next attempt; any other thrown value,
  and whatever the third attempt throws, is thrown on at once. \<open>run\<close> puts the context
  resolution as a whole and the label reconciliation as a whole under this policy. The
  download of the binary and the resolution of the latest version are not under it: an
  error of either, whatever it is, ends \<open>installFromRelease\<close> after that one request, and
  \<open>installCargoSemverChecks\<close> then warns and installs with cargo.
\<close>

theorem retry_policy:
  "withRetries operation label default_maxAttempts w =
     (case operation w of
        (Inr x, w1) \<Rightarrow> (Inr x, w1)
      | (Inl e1, w1) \<Rightarrow>
          if \<not> isRetryableError e1 then (Inl e1, w1)
          else (case operation
                  (emit (Sleep 1000)
                    (emit (Warning (label @ utf16 '' failed ('' @ message_of e1 @ utf16 ''). Retrying (1/3)...'')) w1)) of
                  (Inr x, w2) \<Rightarrow> (Inr x, w2)
                | (Inl e2, w2) \<Rightarrow>
                    if \<not> isRetryableError e2 then (Inl e2, w2)
                    else operation
                      (emit (Sleep 2000)
                        (emit (Warning (label @ utf16 '' failed ('' @ message_of e2 @ utf16 ''). Retrying (2/3)...'')) w2))))
   \<and> (isRetryableError e \<longleftrightarrow> (\<exists>msg s cd. e = ErrorObject msg (Some s) cd \<and> s \<in> {502, 503, 504}))
   \<and> (getInput ctx (utf16 ''github-token'') \<noteq> []
        \<and> withRetries (resolvePrContext ctx octokit (context_owner ctx) (context_repo ctx))
              (utf16 ''Resolve PR context'') default_maxAttempts w = (Inl e, w')
      \<longrightarrow> run_body ctx sys octokit w = (Inl e, w'))
   \<and> (getInput ctx (utf16 ''github-token'') \<noteq> []
        \<and> withRetries (resolvePrContext ctx octokit (context_owner ctx) (context_repo ctx))
              (utf16 ''Resolve PR context'') default_maxAttempts w = (Inr (Skip reason), w')
      \<longrightarrow> run_body ctx sys octokit w = (Inr (), emit (Info reason) w'))
   \<and> apply_label octokit owner repo prNumber labelPrefix semverType w =
       (case withRetries
               (upsertSemverLabel octokit owner repo prNumber labelPrefix (labelPrefix @ SemverType_string semverType))
               (utf16 ''Apply semver label'') default_maxAttempts
               (emit (Info (utf16 ''Applying label '' @ [34] @ labelPrefix @ SemverType_string semverType @ [34]
                        @ utf16 '' to PR #'' @ String_number prNumber @ utf16 ''...''))
                 (emit (Info (utf16 ''Determined semver type: '' @ SemverType_string semverType)) w)) of
          (Inl e, w') \<Rightarrow> (Inl e, w')
        | (Inr u, w') \<Rightarrow>
            (Inr (), emit (SetOutput (utf16 ''semver-type'') (SemverType_string semverType))
                       (emit (Info (utf16 ''Label applied successfully.'')) w')))
   \<and> (getTargetTriple ctx = Some triple \<and> version \<noteq> DEFAULT_CARGO_SEMVER_CHECKS_VERSION
        \<and> httpsGet sys (GITHUB_RELEASES_BASE @ utf16 ''/download/''
             @ (if starts_with False (utf16 ''v'') version then version else utf16 ''v'' @ version)
             @ utf16 ''/'' @ utf16 ''cargo-semver-checks-'' @ triple @ utf16 ''.''
             @ (if os_platform ctx = utf16 ''win32'' then utf16 ''zip'' else utf16 ''tar.gz'')) (ext w) = (Inl e, x)
      \<longrightarrow> installFromRelease ctx sys version w =
            (Inl e, (emit (Info (utf16 ''Downloading: '' @ (GITHUB_RELEASES_BASE @ utf16 ''/download/''
             @ (if starts_with False (utf16 ''v'') version then version else utf16 ''v'' @ version)
             @ utf16 ''/'' @ utf16 ''cargo-semver-checks-'' @ triple @ utf16 ''.''
             @ (if os_platform ctx = utf16 ''win32'' then utf16 ''zip'' else utf16 ''tar.gz'')))) w)\<lparr>ext := x\<rparr>))
   \<and> (getTargetTriple ctx = Some triple \<and> getLatestVersion sys (ext w) = (Inl e, x)
      \<longrightarrow> installFromRelease ctx sys DEFAULT_CARGO_SEMVER_CHECKS_VERSION w =
            (Inl e, (emit (Info (utf16 ''Resolving latest version...'')) w)\<lparr>ext := x\<rparr>))
   \<and> (spawnSync sys (utf16 ''cargo'') [utf16 ''--version''] \<lparr>opt_cwd = Some cwd, opt_env = None\<rparr> (ext w)
          = (cargoCheck, x)
        \<and> error cargoCheck = None \<and> status cargoCheck = Some 0 \<and> getTargetTriple ctx = Some triple
        \<and> installFromRelease ctx sys version
              (emit (Info (utf16 ''Cargo version: '' @ trim (stdout cargoCheck))) (w\<lparr>ext := x\<rparr>)) = (Inl e, w')
      \<longrightarrow> installCargoSemverChecks ctx sys version cwd toolchain True w =
            installWithCargo ctx sys version cwd toolchain
              (emit (Warning (utf16 ''Failed to install from release: '' @ message_of e
                 @ utf16 ''. Falling back to cargo install.'')) w'))"
proof (intro conjI impI)
  show "withRetries operation label default_maxAttempts w =
     (case operation w of
        (Inr x, w1) \<Rightarrow> (Inr x, w1)
      | (Inl e1, w1) \<Rightarrow>
          if \<not> isRetryableError e1 then (Inl e1, w1)
          else (case operation
                  (emit (Sleep 1000)
                    (emit (Warning (label @ utf16 '' failed ('' @ message_of e1 @ utf16 ''). Retrying (1/3)...'')) w1)) of
                  (Inr x, w2) \<Rightarrow> (Inr x, w2)
                | (Inl e2, w2) \<Rightarrow>
                    if \<not> isRetryableError e2 then (Inl e2, w2)
                    else operation
                      (emit (Sleep 2000)
                        (emit (Warning (label @ utf16 '' failed ('' @ message_of e2 @ utf16 ''). Retrying (2/3)...'')) w2))))"
    by (rule withRetries_default)
  show "isRetryableError e \<longleftrightarrow> (\<exists>msg s cd. e = ErrorObject msg (Some s) cd \<and> s \<in> {502, 503, 504})"
    by (rule isRetryableError_iff)
  show "apply_label octokit owner repo prNumber labelPrefix semverType w =
       (case withRetries
               (upsertSemverLabel octokit owner repo prNumber labelPrefix (labelPrefix @ SemverType_string semverType))
               (utf16 ''Apply semver label'') default_maxAttempts
               (emit (Info (utf16 ''Applying label '' @ [34] @ labelPrefix @ SemverType_string semverType @ [34]
                        @ utf16 '' to PR #'' @ String_number prNumber @ utf16 ''...''))
                 (emit (Info (utf16 ''Determined semver type: '' @ SemverType_string semverType)) w)) of
          (Inl e, w') \<Rightarrow> (Inl e, w')
        | (Inr u, w') \<Rightarrow>
            (Inr (), emit (SetOutput (utf16 ''semver-type'') (SemverType_string semverType))
                       (emit (Info (utf16 ''Label applied successfully.'')) w')))"
    by (rule apply_label_eq)
next
  assume "getInput ctx (utf16 ''github-token'') \<noteq> []
        \<and> withRetries (resolvePrContext ctx octokit (context_owner ctx) (context_repo ctx))
              (utf16 ''Resolve PR context'') default_maxAttempts w = (Inl e, w')"
  then show "run_body ctx sys octokit w = (Inl e, w')"
    by (simp add: run_body_resolution)
next
  assume "getInput ctx (utf16 ''github-token'') \<noteq> []
        \<and> withRetries (resolvePrContext ctx octokit (context_owner ctx) (context_repo ctx))
              (utf16 ''Resolve PR context'') default_maxAttempts w = (Inr (Skip reason), w')"
  then show "run_body ctx sys octokit w = (Inr (), emit (Info reason) w')"
    by (simp add: run_body_resolution)
next
  assume "getTargetTriple ctx = Some triple \<and> version \<noteq> DEFAULT_CARGO_SEMVER_CHECKS_VERSION
        \<and> httpsGet sys (GITHUB_RELEASES_BASE @ utf16 ''/download/''
             @ (if starts_with False (utf16 ''v'') version then version else utf16 ''v'' @ version)
             @ utf16 ''/'' @ utf16 ''cargo-semver-checks-'' @ triple @ utf16 ''.''
             @ (if os_platform ctx = utf16 ''win32'' then utf16 ''zip'' else utf16 ''tar.gz'')) (ext w) = (Inl e, x)"
  then show "installFromRelease ctx sys version w =
            (Inl e, (emit (Info (utf16 ''Downloading: '' @ (GITHUB_RELEASES_BASE @ utf16 ''/download/''
             @ (if starts_with False (utf16 ''v'') version then version else utf16 ''v'' @ version)
             @ utf16 ''/'' @ utf16 ''cargo-semver-checks-'' @ triple @ utf16 ''.''
             @ (if os_platform ctx = utf16 ''win32'' then utf16 ''zip'' else utf16 ''tar.gz'')))) w)\<lparr>ext := x\<rparr>)"
    by (simp add: installFromRelease_download_fails)
next
  assume "getTargetTriple ctx = Some triple \<and> getLatestVersion sys (ext w) = (Inl e, x)"
  then show "installFromRelease ctx sys DEFAULT_CARGO_SEMVER_CHECKS_VERSION w =
            (Inl e, (emit (Info (utf16 ''Resolving latest version...'')) w)\<lparr>ext := x\<rparr>)"
    by (simp add: installFromRelease_latest_fails)
next
  assume "spawnSync sys (utf16 ''cargo'') [utf16 ''--version''] \<lparr>opt_cwd = Some cwd, opt_env = None\<rparr> (ext w)
          = (cargoCheck, x)
        \<and> error cargoCheck = None \<and> status cargoCheck = Some 0 \<and> getTargetTriple ctx = Some triple
        \<and> installFromRelease ctx sys version
              (emit (Info (utf16 ''Cargo version: '' @ trim (stdout cargoCheck))) (w\<lparr>ext := x\<rparr>)) = (Inl e, w')"
  then show "installCargoSemverChecks ctx sys version cwd toolchain True w =
            installWithCargo ctx sys version cwd toolchain
              (emit (Warning (utf16 ''Failed to install from release: '' @ message_of e
                 @ utf16 ''. Falling back to cargo install.'')) w')"
    by (simp add: installCargoSemverChecks_fallback)
qed

theorem retry_policy_witness:
  "withRetries (call (flaky_hook 2)) (utf16 ''Lookup'') default_maxAttempts \<lparr>trace = [], ext = 0\<rparr>
     = (Inr (),
        \<lparr>trace = [Warning (utf16 ''Lookup failed (Bad Gateway). Retrying (1/3)...''), Sleep 1000,
                  Warning (utf16 ''Lookup failed (Bad Gateway). Retrying (2/3)...''), Sleep 2000],
         ext = 3\<rparr>)
   \<and> withRetries (call (flaky_hook 3)) (utf16 ''Lookup'') default_maxAttempts \<lparr>trace = [], ext = 0\<rparr>
     = (Inl (ErrorObject (utf16 ''Bad Gateway'') (Some 502) None),
        \<lparr>trace = [Warning (utf16 ''Lookup failed (Bad Gateway). Retrying (1/3)...''), Sleep 1000,
                  Warning (utf16 ''Lookup failed (Bad Gateway). Retrying (2/3)...''), Sleep 2000],
         ext = 3\<rparr>)
   \<and> isRetryableError (ErrorObject (utf16 ''Bad Gateway'') (Some 502) None)
   \<and> installFromRelease (example_context (utf16 ''pull_request'') None None) offline_system
        DEFAULT_CARGO_SEMVER_CHECKS_VERSION \<lparr>trace = [], ext = 0\<rparr>
     = (Inl (Error (utf16 ''Failed to determine latest version'')),
        \<lparr>trace = [Info (utf16 ''Resolving latest version...'')], ext = 1\<rparr>)"
proof -
  let ?w = "\<lparr>trace = [], ext = 0 :: nat\<rparr>"
  let ?ctx = "example_context (utf16 ''pull_request'') None None"
  have r: "isRetryableError (ErrorObject (utf16 ''Bad Gateway'') (Some 502) None)"
    by (simp add: RETRYABLE_STATUS_CODES_def)
  have a: "withRetries (call (flaky_hook 2)) (utf16 ''Lookup'') default_maxAttempts ?w
     = (Inr (),
        \<lparr>trace = [Warning (utf16 ''Lookup failed (Bad Gateway). Retrying (1/3)...''), Sleep 1000,
                  Warning (utf16 ''Lookup failed (Bad Gateway). Retrying (2/3)...''), Sleep 2000],
         ext = 3\<rparr>)"
    using retry_policy [of "call (flaky_hook 2)" "utf16 ''Lookup''" ?w, THEN conjunct1]
    by (simp add: call_def flaky_hook_def emit_def RETRYABLE_STATUS_CODES_def utf16_def)
  have b: "withRetries (call (flaky_hook 3)) (utf16 ''Lookup'') default_maxAttempts ?w
     = (Inl (ErrorObject (utf16 ''Bad Gateway'') (Some 502) None),
        \<lparr>trace = [Warning (utf16 ''Lookup failed (Bad Gateway). Retrying (1/3)...''), Sleep 1000,
                  Warning (utf16 ''Lookup failed (Bad Gateway). Retrying (2/3)...''), Sleep 2000],
         ext = 3\<rparr>)"
    using retry_policy [of "call (flaky_hook 3)" "utf16 ''Lookup''" ?w, THEN conjunct1]
    by (simp add: call_def flaky_hook_def emit_def RETRYABLE_STATUS_CODES_def utf16_def)
  have t: "getTargetTriple ?ctx = Some (utf16 ''x86_64-unknown-linux-gnu'')"
    by (simp add: getTargetTriple_def example_context_def)
  have l: "getLatestVersion offline_system (ext ?w) = (Inl (Error (utf16 ''Failed to determine latest version'')), 1)"
    by (simp add: offline_system_def)
  have c: "installFromRelease ?ctx offline_system DEFAULT_CARGO_SEMVER_CHECKS_VERSION ?w
     = (Inl (Error (utf16 ''Failed to determine latest version'')),
        \<lparr>trace = [Info (utf16 ''Resolving latest version...'')], ext = 1\<rparr>)"
    using retry_policy [where ctx = ?ctx and sys = offline_system and w = ?w
        and triple = "utf16 ''x86_64-unknown-linux-gnu''"
        and e = "Error (utf16 ''Failed to determine latest version'')" and x = 1,
        THEN conjunct2, THEN conjunct2, THEN conjunct2, THEN conjunct2, THEN conjunct2, THEN conjunct2,
        THEN conjunct1] t l
    by (simp add: emit_def)
  from a b r c show ?thesis by simp
qed

theorem download_is_not_retried_counterexample:
  "installCargoSemverChecks (example_context (utf16 ''pull_request'') None None) offline_system
     (utf16 ''0.40.0'') (utf16 ''/work'') [] True \<lparr>trace = [], ext = 0\<rparr>
   = (Inr (),
      \<lparr>trace =
         [Info (utf16 ''Cargo version: cargo 1.80.0''),
          Info (utf16 ''Downloading: https://github.com/obi1kenobi/cargo-semver-checks/releases/download/v0.40.0/cargo-semver-checks-x86_64-unknown-linux-gnu.tar.gz''),
          Warning (utf16 ''Failed to install from release: HTTP 503 for https://github.com/obi1kenobi/cargo-semver-checks/releases/download/v0.40.0/cargo-semver-checks-x86_64-unknown-linux-gnu.tar.gz. Falling back to cargo install.''),
          Info (utf16 ''Installing cargo-semver-checks: cargo install cargo-semver-checks --locked --version 0.40.0''),
          Info (utf16 ''cargo-semver-checks installed successfully.'')],
       ext = 1\<rparr>)"
  by (simp add: installCargoSemverChecks_def installFromRelease_def installWithCargo_def runCommand_def
      offline_system_def example_context_def getTargetTriple_def io_defs eval_defs Let_def
      DEFAULT_CARGO_SEMVER_CHECKS_VERSION_def GITHUB_RELEASES_BASE_def)

section \<open>Claims about broken pipes\<close>

lemma reports_no_failureI:
  "(\<And>w. \<exists>evs. trace (snd (m w)) = trace w @ evs \<and> (\<forall>e\<in>set evs. \<not> is_SetFailed e))
     \<Longrightarrow> reports_no_failure m"
  unfolding reports_no_failure_def by blast

lemma reports_no_failureD:
  assumes "reports_no_failure m" and "m w = (r, w')"
  obtains evs where "trace w' = trace w @ evs" and "\<forall>e\<in>set evs. \<not> is_SetFailed e"
proof -
  from assms(1) obtain evs where "trace (snd (m w)) = trace w @ evs \<and> (\<forall>e\<in>set evs. \<not> is_SetFailed e)"
    unfolding reports_no_failure_def by blast
  with assms(2) that show thesis by simp
qed

lemma rnf_same_trace:
  "(\<And>w. trace (snd (m w)) = trace w) \<Longrightarrow> reports_no_failure m"
  by (rule reports_no_failureI) simp

lemma rnf_return [intro!, simp]: "reports_no_failure (io_return x)"
  by (rule rnf_same_trace) (simp add: io_return_def)

lemma rnf_throw [intro!, simp]: "reports_no_failure (io_throw e)"
  by (rule rnf_same_trace) (simp add: io_throw_def)

lemma rnf_call [intro!, simp]: "reports_no_failure (call h)"
  by (rule rnf_same_trace) (simp add: call_def split: prod.splits)

lemma rnf_log: "\<not> is_SetFailed e \<Longrightarrow> reports_no_failure (log e)"
  by (rule reports_no_failureI) (simp add: log_def)

lemma rnf_log_simps [intro!, simp]:
  "reports_no_failure (log (Info a))" "reports_no_failure (log (Warning a))"
  "reports_no_failure (log (Debug a))" "reports_no_failure (log (Sleep n))"
  "reports_no_failure (log (SetOutput a b))"
  by (simp_all add: rnf_log)

lemma rnf_bind [intro!]:
  assumes "reports_no_failure m" and "\<And>x. reports_no_failure (f x)"
  shows "reports_no_failure (io_bind m f)"
proof (rule reports_no_failureI)
  fix w
  obtain r w1 where m: "m w = (r, w1)"
    by (cases "m w")
  from assms(1) m obtain evs1 where e1: "trace w1 = trace w @ evs1" "\<forall>e\<in>set evs1. \<not> is_SetFailed e"
    by (rule reports_no_failureD)
  show "\<exists>evs. trace (snd (io_bind m f w)) = trace w @ evs \<and> (\<forall>e\<in>set evs. \<not> is_SetFailed e)"
  proof (cases r)
    case (Inl err)
    with m e1 show ?thesis by (simp add: io_bind_def)
  next
    case (Inr x)
    obtain r2 w2 where f: "f x w1 = (r2, w2)"
      by (cases "f x w1")
    from assms(2) f obtain evs2 where e2: "trace w2 = trace w1 @ evs2" "\<forall>e\<in>set evs2. \<not> is_SetFailed e"
      by (rule reports_no_failureD)
    from e1 e2 have "trace w2 = trace w @ (evs1 @ evs2) \<and> (\<forall>e\<in>set (evs1 @ evs2). \<not> is_SetFailed e)"
      by auto
    moreover from Inr m f have "io_bind m f w = (r2, w2)"
      by (simp add: io_bind_def)
    ultimately show ?thesis
      by (intro exI [of _ "evs1 @ evs2"]) simp
  qed
qed

lemma rnf_then [intro!]:
  "reports_no_failure m \<Longrightarrow> reports_no_failure k \<Longrightarrow> reports_no_failure (io_then m k)"
  unfolding io_then_def by (rule rnf_bind)

lemma rnf_catch [intro!]:
  assumes "reports_no_failure m" and "\<And>e. reports_no_failure (h e)"
  shows "reports_no_failure (io_catch m h)"
proof (rule reports_no_failureI)
  fix w
  obtain r w1 where m: "m w = (r, w1)"
    by (cases "m w")
  from assms(1) m obtain evs1 where e1: "trace w1 = trace w @ evs1" "\<forall>e\<in>set evs1. \<not> is_SetFailed e"
    by (rule reports_no_failureD)
  show "\<exists>evs. trace (snd (io_catch m h w)) = trace w @ evs \<and> (\<forall>e\<in>set evs. \<not> is_SetFailed e)"
  proof (cases r)
    case (Inr x)
    with m e1 show ?thesis by (simp add: io_catch_def)
  next
    case (Inl err)
    obtain r2 w2 where f: "h err w1 = (r2, w2)"
      by (cases "h err w1")
    from assms(2) f obtain evs2 where e2: "trace w2 = trace w1 @ evs2" "\<forall>e\<in>set evs2. \<not> is_SetFailed e"
      by (rule reports_no_failureD)
    from e1 e2 have "trace w2 = trace w @ (evs1 @ evs2) \<and> (\<forall>e\<in>set (evs1 @ evs2). \<not> is_SetFailed e)"
      by auto
    moreover from Inl m f have "io_catch m h w = (r2, w2)"
      by (simp add: io_catch_def)
    ultimately show ?thesis
      by (intro exI [of _ "evs1 @ evs2"]) simp
  qed
qed

lemma rnf_when [intro!]: "reports_no_failure m \<Longrightarrow> reports_no_failure (io_when b m)"
  by (simp add: io_when_def)

lemma rnf_if [intro!]:
  "reports_no_failure m \<Longrightarrow> reports_no_failure k \<Longrightarrow> reports_no_failure (if b then m else k)"
  by simp

lemma rnf_if_world:
  "reports_no_failure m \<Longrightarrow> reports_no_failure k \<Longrightarrow> reports_no_failure (\<lambda>w. if c w then m w else k w)"
  by (simp add: reports_no_failure_def)

lemma rnf_runCommand [intro!, simp]: "reports_no_failure (runCommand sys command args options)"
  by (rule rnf_same_trace) (simp add: runCommand_def split: prod.splits option.splits)

lemma rnf_determineSemverType [intro!, simp]: "reports_no_failure (determineSemverType result)"
  by (rule reports_no_failureI)
    (simp add: determineSemverType_def Let_def split: sum.splits)

lemma rnf_ensureGitShaAvailable [intro!, simp]: "reports_no_failure (ensureGitShaAvailable sys sha cwd)"
  unfolding ensureGitShaAvailable_def by (intro rnf_then rnf_bind rnf_if) simp_all

lemma rnf_mkdir [intro!, simp]:
  "reports_no_failure (\<lambda>w. if \<not> existsSync sys binDir (ext w) then call (mkdirSync sys binDir) w else io_return () w)"
  by (rule rnf_if_world) simp_all

lemma rnf_installFromRelease [intro!, simp]: "reports_no_failure (installFromRelease ctx sys version)"
  unfolding installFromRelease_def Let_def
  by (auto split: option.splits)

lemma rnf_installWithCargo [intro!, simp]: "reports_no_failure (installWithCargo ctx sys version cwd toolchain)"
  unfolding installWithCargo_def Let_def by (intro rnf_then rnf_bind rnf_if) simp_all

lemma rnf_installCargoSemverChecks [intro!, simp]:
  "reports_no_failure (installCargoSemverChecks ctx sys version cwd toolchain useReleaseBinary)"
  unfolding installCargoSemverChecks_def
  by (auto split: option.splits)

lemma rnf_runSemverChecks [intro!, simp]: "reports_no_failure (runSemverChecks ctx sys options)"
  unfolding runSemverChecks_def Let_def
  by (intro rnf_then rnf_bind rnf_when) simp_all

lemma rnf_resolve_base [intro!, simp]: "reports_no_failure (resolve_base octokit owner repo prNumber baseSha)"
  unfolding resolve_base_def
  by (auto split: option.splits)

lemma rnf_resolve_from_head_sha [intro!, simp]:
  "reports_no_failure (resolve_from_head_sha ctx octokit owner repo workflowRun prNumber baseSha)"
  unfolding resolve_from_head_sha_def
  by (auto split: option.splits list.splits)

lemma rnf_resolve_from_head_branch [intro!, simp]:
  "reports_no_failure (resolve_from_head_branch ctx octokit owner repo workflowRun baseSha)"
  unfolding resolve_from_head_branch_def Let_def
  by (auto split: option.splits list.splits prod.splits)

lemma rnf_case_option:
  "reports_no_failure a \<Longrightarrow> (\<And>x. reports_no_failure (f x))
     \<Longrightarrow> reports_no_failure (case v of None \<Rightarrow> a | Some x \<Rightarrow> f x)"
  by (cases v) simp_all

lemma rnf_case_list:
  "reports_no_failure a \<Longrightarrow> (\<And>x xs. reports_no_failure (f x xs))
     \<Longrightarrow> reports_no_failure (case v of [] \<Rightarrow> a | x # xs \<Rightarrow> f x xs)"
  by (cases v) simp_all

lemma rnf_case_prod:
  "(\<And>a b. reports_no_failure (f a b)) \<Longrightarrow> reports_no_failure (case v of (a, b) \<Rightarrow> f a b)"
  by (cases v) simp

lemma rnf_case_PrContextResolution:
  "(\<And>reason. reports_no_failure (f reason)) \<Longrightarrow> (\<And>n b. reports_no_failure (g n b))
     \<Longrightarrow> reports_no_failure (case v of Skip reason \<Rightarrow> f reason | Proceed n b \<Rightarrow> g n b)"
  by (cases v) simp_all

lemmas rnf_intros = rnf_then rnf_when rnf_if rnf_bind rnf_catch rnf_case_option rnf_case_list rnf_case_prod
  rnf_case_PrContextResolution rnf_log_simps rnf_return rnf_throw rnf_call

lemma rnf_resolvePrContext [intro!, simp]: "reports_no_failure (resolvePrContext ctx octokit owner repo)"
  unfolding resolvePrContext_def Let_def
  by (intro rnf_intros rnf_resolve_base rnf_resolve_from_head_sha rnf_resolve_from_head_branch)

lemma rnf_ensureLabelExists [intro!, simp]: "reports_no_failure (ensureLabelExists octokit owner repo name)"
  unfolding ensureLabelExists_def by auto

lemma rnf_removeLabelIfExists [intro!, simp]:
  "reports_no_failure (removeLabelIfExists octokit owner repo issueNumber name)"
  unfolding removeLabelIfExists_def by auto

lemma rnf_remove_old_labels [intro!, simp]:
  "reports_no_failure (remove_old_labels octokit owner repo issueNumber labelPrefix newLabel labels)"
  by (induction labels) auto

lemma rnf_upsertSemverLabel [intro!, simp]:
  "reports_no_failure (upsertSemverLabel octokit owner repo issueNumber labelPrefix newLabel)"
  unfolding upsertSemverLabel_def Let_def by auto

lemma rnf_withRetries_from:
  assumes op: "reports_no_failure operation"
  shows "Suc maxAttempts - attempt \<le> n \<Longrightarrow>
     \<exists>evs. trace (snd (withRetries_from attempt operation label maxAttempts w)) = trace w @ evs
       \<and> (\<forall>e\<in>set evs. \<not> is_SetFailed e)"
proof (induction n arbitrary: attempt w)
  case 0
  then have "\<not> attempt \<le> maxAttempts"
    by simp
  then show ?case
    by (subst withRetries_from.simps) simp
next
  case (Suc n)
  obtain r w1 where ow: "operation w = (r, w1)"
    by (cases "operation w")
  from op ow obtain evs1 where e1: "trace w1 = trace w @ evs1" "\<forall>e\<in>set evs1. \<not> is_SetFailed e"
    by (rule reports_no_failureD)
  show ?case
  proof (cases "attempt \<le> maxAttempts")
    case False
    then show ?thesis
      by (subst withRetries_from.simps) simp
  next
    case le: True
    show ?thesis
    proof (cases r)
      case (Inr x)
      with le ow e1 show ?thesis
        by (subst withRetries_from.simps) simp
    next
      case (Inl err)
      show ?thesis
      proof (cases "attempt \<ge> maxAttempts \<or> \<not> isRetryableError err")
        case True
        with le ow e1 Inl show ?thesis
          by (subst withRetries_from.simps) auto
      next
        case False
        let ?w2 = "emit (Sleep (1000 * attempt))
                     (emit (Warning (label @ utf16 '' failed ('' @ message_of err @ utf16 ''). Retrying (''
                        @ String_nat attempt @ utf16 ''/'' @ String_nat maxAttempts @ utf16 '')...'')) w1)"
        from Suc.prems le have "Suc maxAttempts - (attempt + 1) \<le> n"
          by simp
        from Suc.IH [OF this, of ?w2]
        obtain evs2 where e2: "trace (snd (withRetries_from (attempt + 1) operation label maxAttempts ?w2))
            = trace ?w2 @ evs2" "\<forall>e\<in>set evs2. \<not> is_SetFailed e"
          by (elim exE conjE)
        have step: "withRetries_from attempt operation label maxAttempts w
            = withRetries_from (attempt + 1) operation label maxAttempts ?w2"
          using le ow Inl False by (subst withRetries_from.simps) (simp add: Let_def)
        let ?evs = "evs1 @ [Warning (label @ utf16 '' failed ('' @ message_of err @ utf16 ''). Retrying (''
                        @ String_nat attempt @ utf16 ''/'' @ String_nat maxAttempts @ utf16 '')...''),
                      Sleep (1000 * attempt)] @ evs2"
        from e1 e2 have "trace (snd (withRetries_from attempt operation label maxAttempts w)) = trace w @ ?evs
            \<and> (\<forall>e\<in>set ?evs. \<not> is_SetFailed e)"
          unfolding step by auto
        then show ?thesis
          by (rule exI)
      qed
    qed
  qed
qed

lemma rnf_withRetries [intro!, simp]:
  "reports_no_failure operation \<Longrightarrow> reports_no_failure (withRetries operation label maxAttempts)"
  unfolding withRetries_def
  by (rule reports_no_failureI) (rule rnf_withRetries_from [where n = "Suc maxAttempts"], simp_all)

lemma rnf_apply_label [intro!, simp]:
  "reports_no_failure (apply_label octokit owner repo prNumber labelPrefix semverType)"
  unfolding apply_label_def Let_def
  by (intro rnf_intros rnf_withRetries rnf_upsertSemverLabel)

lemma rnf_getInput_required [intro!, simp]: "reports_no_failure (getInput_required ctx name)"
  by (simp add: getInput_required_def)

lemma rnf_run_body: "reports_no_failure (run_body ctx sys octokit)"
  unfolding run_body_def Let_def
  by (intro rnf_intros rnf_withRetries rnf_resolvePrContext rnf_getInput_required rnf_ensureGitShaAvailable
      rnf_installCargoSemverChecks rnf_runSemverChecks rnf_determineSemverType rnf_apply_label)

lemma run_eq:
  "run ctx sys octokit w =
     (case run_body ctx sys octokit w of
        (Inr u, w') \<Rightarrow> (Inr (), w')
      | (Inl err, w') \<Rightarrow>
          if \<not> contains False (utf16 ''EPIPE'') (message_of err)
          then (Inr (), emit (SetFailed (message_of err)) w') else (Inr (), w'))"
  by (simp add: run_def io_catch_def Let_def log_def io_return_def split: prod.splits sum.splits)

lemma run_trace:
  "\<exists>evs. trace (snd (run ctx sys octokit w)) = trace w @ evs
     \<and> (\<forall>m. SetFailed m \<in> set evs \<longrightarrow> \<not> contains False (utf16 ''EPIPE'') m)"
proof -
  obtain r w1 where b: "run_body ctx sys octokit w = (r, w1)"
    by (cases "run_body ctx sys octokit w")
  from rnf_run_body b obtain evs1 where e1: "trace w1 = trace w @ evs1" "\<forall>e\<in>set evs1. \<not> is_SetFailed e"
    by (rule reports_no_failureD)
  have none: "SetFailed m \<notin> set evs1" for m
  proof
    assume "SetFailed m \<in> set evs1"
    with e1(2) have "\<not> is_SetFailed (SetFailed m)"
      by (rule bspec)
    then show False
      by simp
  qed
  show ?thesis
  proof (cases "\<exists>err. r = Inl err \<and> \<not> contains False (utf16 ''EPIPE'') (message_of err)")
    case False
    then have "run ctx sys octokit w = (Inr (), w1)"
      unfolding run_eq b by (cases r) simp_all
    with e1(1) none show ?thesis
      by (intro exI [of _ evs1]) simp
  next
    case True
    then obtain err where "r = Inl err" and "\<not> contains False (utf16 ''EPIPE'') (message_of err)"
      by (elim exE conjE)
    then have "run ctx sys octokit w = (Inr (), emit (SetFailed (message_of err)) w1)"
      and "\<not> contains False (utf16 ''EPIPE'') (message_of err)"
      unfolding run_eq b by simp_all
    with e1(1) none show ?thesis
      by (intro exI [of _ "evs1 @ [SetFailed (message_of err)]"]) simp
  qed
qed

lemma isEpipe_iff: "isEpipe e \<longleftrightarrow> (\<exists>msg st. e = ErrorObject msg st (Some (utf16 ''EPIPE'')))"
  by (cases e) auto

text \<open>
  C9. \<open>run\<close> never throws, and whatever it appends to the trace, a \<open>SetFailed\<close> among it has
  a message without \<open>EPIPE\<close>: an error of the body whose message contains \<open>EPIPE\<close> is dropped,
  any other is reported with its message. The wrapped \<open>write\<close> never throws an error with
  code \<open>EPIPE\<close>: when the write below throws one it sets \<open>streamBroken\<close> and returns
  \<open>false\<close>, and once the flag is set nothing is written any more. The handlers of uncaught
  exceptions, unhandled rejections and stream errors set the flag for such an error and let
  the process go on.
\<close>

theorem broken_pipe_is_suppressed:
  "(\<exists>evs. trace (snd (run ctx sys octokit w)) = trace w @ evs
       \<and> (\<forall>m. SetFailed m \<in> set evs \<longrightarrow> \<not> contains False (utf16 ''EPIPE'') m))
   \<and> fst (run ctx sys octokit w) = Inr ()
   \<and> (run_body ctx sys octokit w = (Inl err, w') \<and> contains False (utf16 ''EPIPE'') (message_of err)
      \<longrightarrow> run ctx sys octokit w = (Inr (), w'))
   \<and> (run_body ctx sys octokit w = (Inl err, w') \<and> \<not> contains False (utf16 ''EPIPE'') (message_of err)
      \<longrightarrow> run ctx sys octokit w = (Inr (), emit (SetFailed (message_of err)) w'))
   \<and> (fst (wrapped_write stream chunk s) = Inl e \<longrightarrow> \<not> isEpipe e)
   \<and> (streamBroken s \<longrightarrow> wrapped_write stream chunk s = (Inr False, s))
   \<and> (\<not> fst (shouldSkipWrite stream s) \<and> originalWrite stream chunk (runtime s) = (Inl e, x) \<and> isEpipe e
      \<longrightarrow> wrapped_write stream chunk s = (Inr False, s\<lparr>runtime := x, streamBroken := True\<rparr>))
   \<and> (isEpipe e \<longrightarrow>
        on_uncaughtException stderr_stream e s = (Continues, s\<lparr>streamBroken := True\<rparr>)
        \<and> on_unhandledRejection stderr_stream e s = (Continues, s\<lparr>streamBroken := True\<rparr>)
        \<and> handleStreamError e s = s\<lparr>streamBroken := True\<rparr>)
   \<and> (isEpipe e \<longleftrightarrow> (\<exists>msg st. e = ErrorObject msg st (Some (utf16 ''EPIPE''))))"
proof (intro conjI impI)
  show "\<exists>evs. trace (snd (run ctx sys octokit w)) = trace w @ evs
       \<and> (\<forall>m. SetFailed m \<in> set evs \<longrightarrow> \<not> contains False (utf16 ''EPIPE'') m)"
    by (rule run_trace)
  show "fst (run ctx sys octokit w) = Inr ()"
    by (simp add: run_eq split: prod.splits sum.splits)
  show "isEpipe e \<longleftrightarrow> (\<exists>msg st. e = ErrorObject msg st (Some (utf16 ''EPIPE'')))"
    by (rule isEpipe_iff)
next
  assume "run_body ctx sys octokit w = (Inl err, w') \<and> contains False (utf16 ''EPIPE'') (message_of err)"
  then show "run ctx sys octokit w = (Inr (), w')"
    by (simp add: run_eq)
next
  assume "run_body ctx sys octokit w = (Inl err, w') \<and> \<not> contains False (utf16 ''EPIPE'') (message_of err)"
  then show "run ctx sys octokit w = (Inr (), emit (SetFailed (message_of err)) w')"
    by (simp add: run_eq)
next
  assume "fst (wrapped_write stream chunk s) = Inl e"
  then show "\<not> isEpipe e"
    by (auto simp: wrapped_write_def split: prod.splits bool.splits sum.splits if_splits)
next
  assume "streamBroken s"
  then show "wrapped_write stream chunk s = (Inr False, s)"
    by (simp add: wrapped_write_def shouldSkipWrite_def)
next
  assume "\<not> fst (shouldSkipWrite stream s) \<and> originalWrite stream chunk (runtime s) = (Inl e, x) \<and> isEpipe e"
  then show "wrapped_write stream chunk s = (Inr False, s\<lparr>runtime := x, streamBroken := True\<rparr>)"
    by (auto simp: wrapped_write_def shouldSkipWrite_def split: if_splits)
next
  assume "isEpipe e"
  then show "on_uncaughtException stderr_stream e s = (Continues, s\<lparr>streamBroken := True\<rparr>)"
    and "on_unhandledRejection stderr_stream e s = (Continues, s\<lparr>streamBroken := True\<rparr>)"
    and "handleStreamError e s = s\<lparr>streamBroken := True\<rparr>"
    by (simp_all add: on_uncaughtException_def on_unhandledRejection_def handleStreamError_def)
qed

theorem broken_pipe_is_suppressed_witness:
  "run (example_context (utf16 ''workflow_run'') None
          (Some (example_run (Some (utf16 ''success'')) [\<lparr>number = Some (Integer 7), base_sha = None\<rparr>] None)))
       idle_system broken_pipe_octokit \<lparr>trace = [], ext = empty_platform\<rparr>
     = (Inr (), \<lparr>trace = [], ext = received (PullsGet (Integer 7)) empty_platform\<rparr>)
   \<and> contains False (utf16 ''EPIPE'') (message_of write_EPIPE)
   \<and> run (example_context (utf16 ''pull_request'') None None) idle_system broken_pipe_octokit
         \<lparr>trace = [], ext = empty_platform\<rparr>
     = (Inr (), \<lparr>trace = [SetFailed (utf16 ''Missing pull_request payload.'')], ext = empty_platform\<rparr>)
   \<and> wrapped_write closed_pipe (utf16 ''line'') \<lparr>streamBroken = False, runtime = ()\<rparr>
     = (Inr False, \<lparr>streamBroken = True, runtime = ()\<rparr>)
   \<and> isEpipe write_EPIPE"
proof -
  let ?wr = "example_run (Some (utf16 ''success'')) [\<lparr>number = Some (Integer 7), base_sha = None\<rparr>] None"
  let ?ctx = "example_context (utf16 ''workflow_run'') None (Some ?wr)"
  let ?ctx2 = "example_context (utf16 ''pull_request'') None None"
  let ?w = "\<lparr>trace = [], ext = empty_platform\<rparr>"
  let ?w1 = "\<lparr>trace = [], ext = received (PullsGet (Integer 7)) empty_platform\<rparr>"
  have a: "eventName ?ctx = utf16 ''workflow_run''" "payload_workflow_run ?ctx = Some ?wr" "\<not> isDebug ?ctx"
    "context_owner ?ctx = utf16 ''rust-lang''" "context_repo ?ctx = utf16 ''libc''"
    and tok: "getInput ?ctx (utf16 ''github-token'') \<noteq> []"
    by (simp_all add: example_context_def utf16_def)
  have a2: "eventName ?ctx2 = utf16 ''pull_request''" "payload_pull_request ?ctx2 = None" "\<not> isDebug ?ctx2"
    and tok2: "getInput ?ctx2 (utf16 ''github-token'') \<noteq> []"
    by (simp_all add: example_context_def utf16_def)
  have b: "conclusion ?wr = Some (utf16 ''success'')" "pull_requests ?wr = Some [\<lparr>number = Some (Integer 7), base_sha = None\<rparr>]"
    by (simp_all add: example_run_def)
  have d: "\<not> truthy None" "truthy_number (Some (Integer 7))"
    by (simp_all add: truthy_def truthy_number_def)
  have epipe: "isEpipe write_EPIPE" "\<not> isRetryableError write_EPIPE"
    "contains False (utf16 ''EPIPE'') (message_of write_EPIPE)"
    by (simp_all add: write_EPIPE_def utf16_def Canonicalize_def)
  have r: "resolvePrContext ?ctx broken_pipe_octokit (utf16 ''rust-lang'') (utf16 ''libc'') ?w
      = (Inl write_EPIPE, ?w1)"
    unfolding resolvePrContext_workflow_run [OF a(1,2)] let_log when_log_then
    by (simp add: a b d Let_def io_bind_return resolve_base_eq broken_pipe_octokit_def)
  have "withRetries (resolvePrContext ?ctx broken_pipe_octokit (context_owner ?ctx) (context_repo ?ctx))
      (utf16 ''Resolve PR context'') default_maxAttempts ?w = (Inl write_EPIPE, ?w1)"
    by (simp add: withRetries_default a r epipe)
  then have body: "run_body ?ctx idle_system broken_pipe_octokit ?w = (Inl write_EPIPE, ?w1)"
    by (rule run_body_resolution(1) [OF tok])
  have r2: "resolvePrContext ?ctx2 broken_pipe_octokit (context_owner ?ctx2) (context_repo ?ctx2) ?w
      = (Inl (Error (utf16 ''Missing pull_request payload.'')), ?w)"
    unfolding resolvePrContext_def when_log_then
    by (simp add: a2 io_throw_def)
  have missing: "\<not> isRetryableError (Error (utf16 ''Missing pull_request payload.''))"
    "\<not> contains False (utf16 ''EPIPE'') (message_of (Error (utf16 ''Missing pull_request payload.'')))"
    "message_of (Error (utf16 ''Missing pull_request payload.'')) = utf16 ''Missing pull_request payload.''"
    by (simp_all add: Error_def utf16_def Canonicalize_def)
  have "withRetries (resolvePrContext ?ctx2 broken_pipe_octokit (context_owner ?ctx2) (context_repo ?ctx2))
      (utf16 ''Resolve PR context'') default_maxAttempts ?w
      = (Inl (Error (utf16 ''Missing pull_request payload.'')), ?w)"
    by (simp add: withRetries_default r2 missing(1))
  then have body2: "run_body ?ctx2 idle_system broken_pipe_octokit ?w
      = (Inl (Error (utf16 ''Missing pull_request payload.'')), ?w)"
    by (rule run_body_resolution(1) [OF tok2])
  have skip: "\<not> fst (shouldSkipWrite closed_pipe \<lparr>streamBroken = False, runtime = ()\<rparr>)"
    "originalWrite closed_pipe (utf16 ''line'') (runtime \<lparr>streamBroken = False, runtime = ()\<rparr>)
       = (Inl write_EPIPE, ())"
    by (simp_all add: shouldSkipWrite_def closed_pipe_def)
  note thm1 = broken_pipe_is_suppressed [where ctx = ?ctx and sys = idle_system and octokit = broken_pipe_octokit
      and w = ?w and err = write_EPIPE and w' = ?w1 and stream = closed_pipe and chunk = "utf16 ''line''"
      and s = "\<lparr>streamBroken = False, runtime = ()\<rparr>" and e = write_EPIPE and x = "()"]
  note thm2 = broken_pipe_is_suppressed [where ctx = ?ctx2 and sys = idle_system and octokit = broken_pipe_octokit
      and w = ?w and err = "Error (utf16 ''Missing pull_request payload.'')" and w' = ?w
      and s = "\<lparr>streamBroken = False, runtime = ()\<rparr>"]
  from thm1 body epipe(3) have one: "run ?ctx idle_system broken_pipe_octokit ?w = (Inr (), ?w1)"
    by blast
  from thm2 body2 missing(2)
  have "run ?ctx2 idle_system broken_pipe_octokit ?w
      = (Inr (), emit (SetFailed (message_of (Error (utf16 ''Missing pull_request payload.'')))) ?w)"
    by blast
  then have two: "run ?ctx2 idle_system broken_pipe_octokit ?w
      = (Inr (), \<lparr>trace = [SetFailed (utf16 ''Missing pull_request payload.'')], ext = empty_platform\<rparr>)"
    by (simp add: missing(3) emit_def)
  from thm1 skip epipe(1)
  have "wrapped_write closed_pipe (utf16 ''line'') \<lparr>streamBroken = False, runtime = ()\<rparr>
      = (Inr False, \<lparr>streamBroken = False, runtime = ()\<rparr>\<lparr>runtime := (), streamBroken := True\<rparr>)"
    by blast
  then have three: "wrapped_write closed_pipe (utf16 ''line'') \<lparr>streamBroken = False, runtime = ()\<rparr>
     = (Inr False, \<lparr>streamBroken = True, runtime = ()\<rparr>)"
    by simp
  from one two three epipe show ?thesis
    by simp
qed

section \<open>Claims about status 404 in label reconciliation\<close>

lemma fst_then:
  "fst (io_then m k w) = (case fst (m w) of Inl e \<Rightarrow> Inl e | Inr u \<Rightarrow> fst (k (snd (m w))))"
  by (simp add: io_then_def io_bind_def split: prod.splits sum.splits)

lemma fst_log [simp]: "fst (log e w) = Inr ()"
  by (simp add: log_def)

lemma fst_return [simp]: "fst (io_return x w) = Inr x"
  by (simp add: io_return_def)

lemma fst_call [simp]: "fst (call h w) = fst (h (ext w))"
  by (simp add: call_def split: prod.splits)

lemma removeLabelIfExists_tolerant:
  assumes "removal_fails_only_404 octokit owner repo issueNumber"
  shows "fst (removeLabelIfExists octokit owner repo issueNumber name w) = Inr ()"
proof -
  from assms have "case fst (issues_removeLabel octokit owner repo issueNumber name (ext w)) of
      Inr u \<Rightarrow> True | Inl e \<Rightarrow> is_404 e"
    unfolding removal_fails_only_404_def by blast
  then show ?thesis
    by (auto simp: removeLabelIfExists_def io_defs split: prod.splits sum.splits)
qed

lemma remove_old_labels_tolerant:
  assumes "removal_fails_only_404 octokit owner repo issueNumber"
  shows "fst (remove_old_labels octokit owner repo issueNumber labelPrefix newLabel labels w) = Inr ()"
proof (induction labels arbitrary: w)
  case Nil
  show ?case by simp
next
  case (Cons l labels)
  show ?case
    by (simp add: fst_then removeLabelIfExists_tolerant [OF assms] Cons)
qed

lemma ensureLabelExists_result:
  "fst (ensureLabelExists octokit owner repo name w) =
     (case issues_getLabel octokit owner repo name (ext w) of
        (Inr u, x) \<Rightarrow> Inr ()
      | (Inl e, x) \<Rightarrow>
          if is_404 e
          then fst (issues_createLabel octokit owner repo name (utf16 ''ededed'') (utf16 ''Semver required update'') x)
          else Inl e)"
  by (simp add: ensureLabelExists_def io_defs split: prod.splits sum.splits)

lemma ensureLabelExists_tolerant:
  assumes "lookup_fails_only_404 octokit owner repo name"
    and "\<forall>x. fst (issues_createLabel octokit owner repo name (utf16 ''ededed'')
                 (utf16 ''Semver required update'') x) = r"
  shows "fst (ensureLabelExists octokit owner repo name w) = Inr () \<or> fst (ensureLabelExists octokit owner repo name w) = r"
proof -
  from assms(1) have "case fst (issues_getLabel octokit owner repo name (ext w)) of
      Inr u \<Rightarrow> True | Inl e \<Rightarrow> is_404 e"
    unfolding lookup_fails_only_404_def by blast
  with assms(2) show ?thesis
    unfolding ensureLabelExists_result by (auto split: prod.splits sum.splits)
qed

lemma upsertSemverLabel_listing_fails:
  assumes "issues_listLabelsOnIssue octokit owner repo issueNumber (ext w) = (Inl e, x)"
  shows "upsertSemverLabel octokit owner repo issueNumber labelPrefix newLabel w =
     (Inl e, (emit (Info (utf16 ''Fetching existing labels for issue #'' @ String_number issueNumber
                     @ utf16 ''...'')) w)\<lparr>ext := x\<rparr>)"
  unfolding upsertSemverLabel_unfold using assms by simp

lemma upsertSemverLabel_tolerant:
  assumes list: "fst (issues_listLabelsOnIssue octokit owner repo issueNumber (ext w)) = Inr existing"
    and rem: "removal_fails_only_404 octokit owner repo issueNumber"
    and get: "lookup_fails_only_404 octokit owner repo newLabel"
    and create: "\<forall>x. fst (issues_createLabel octokit owner repo newLabel (utf16 ''ededed'')
                 (utf16 ''Semver required update'') x) = Inr ()"
    and add: "\<forall>x. fst (issues_addLabels octokit owner repo issueNumber [newLabel] x) = Inr ()"
  shows "fst (upsertSemverLabel octokit owner repo issueNumber labelPrefix newLabel w) = Inr ()"
proof -
  obtain x where l: "issues_listLabelsOnIssue octokit owner repo issueNumber (ext w) = (Inr existing, x)"
    using list by (cases "issues_listLabelsOnIssue octokit owner repo issueNumber (ext w)") simp
  have e: "fst (ensureLabelExists octokit owner repo newLabel w') = Inr ()" for w'
    using ensureLabelExists_tolerant [OF get create, of w'] by simp
  show ?thesis
    unfolding upsertSemverLabel_unfold l
    by (simp add: fst_then remove_old_labels_tolerant [OF rem] e add)
qed

lemma upsertSemverLabel_adding_fails:
  assumes list: "fst (issues_listLabelsOnIssue octokit owner repo issueNumber (ext w)) = Inr existing"
    and new: "newLabel \<notin> set existing"
    and rem: "removal_fails_only_404 octokit owner repo issueNumber"
    and get: "lookup_fails_only_404 octokit owner repo newLabel"
    and create: "\<forall>x. fst (issues_createLabel octokit owner repo newLabel (utf16 ''ededed'')
                 (utf16 ''Semver required update'') x) = Inr ()"
    and add: "\<forall>x. fst (issues_addLabels octokit owner repo issueNumber [newLabel] x) = Inl e"
  shows "fst (upsertSemverLabel octokit owner repo issueNumber labelPrefix newLabel w) = Inl e"
proof -
  obtain x where l: "issues_listLabelsOnIssue octokit owner repo issueNumber (ext w) = (Inr existing, x)"
    using list by (cases "issues_listLabelsOnIssue octokit owner repo issueNumber (ext w)") simp
  have e: "fst (ensureLabelExists octokit owner repo newLabel w') = Inr ()" for w'
    using ensureLabelExists_tolerant [OF get create, of w'] by simp
  show ?thesis
    unfolding upsertSemverLabel_unfold l
    by (simp add: fst_then remove_old_labels_tolerant [OF rem] e add new)
qed

lemma upsertSemverLabel_creating_fails:
  assumes list: "fst (issues_listLabelsOnIssue octokit owner repo issueNumber (ext w)) = Inr existing"
    and new: "newLabel \<notin> set existing"
    and rem: "removal_fails_only_404 octokit owner repo issueNumber"
    and get: "\<forall>x. \<exists>e'. fst (issues_getLabel octokit owner repo newLabel x) = Inl e' \<and> is_404 e'"
    and create: "\<forall>x. fst (issues_createLabel octokit owner repo newLabel (utf16 ''ededed'')
                 (utf16 ''Semver required update'') x) = Inl e"
  shows "fst (upsertSemverLabel octokit owner repo issueNumber labelPrefix newLabel w) = Inl e"
proof -
  obtain x where l: "issues_listLabelsOnIssue octokit owner repo issueNumber (ext w) = (Inr existing, x)"
    using list by (cases "issues_listLabelsOnIssue octokit owner repo issueNumber (ext w)") simp
  have e: "fst (ensureLabelExists octokit owner repo newLabel w') = Inl e" for w'
  proof -
    from get obtain e' where "fst (issues_getLabel octokit owner repo newLabel (ext w')) = Inl e'" "is_404 e'"
      by blast
    with create show ?thesis
      unfolding ensureLabelExists_result by (auto split: prod.splits sum.splits)
  qed
  show ?thesis
    unfolding upsertSemverLabel_unfold l
    by (simp add: fst_then remove_old_labels_tolerant [OF rem] e new)
qed

text \<open>
  C10, amended. In \<open>removeLabelIfExists\<close> an error of the removal call with status 404 is
  swallowed and the function returns; in \<open>ensureLabelExists\<close> an error of the label lookup
  with status 404 leads to the creation of the label with the fixed color and description.
  Any other thrown value of these two calls is thrown on unchanged. So a reconciliation in
  which removals and the lookup fail with 404 only, and listing, creation and adding
  succeed, returns normally. An error of the listing, of the creation or of the adding is
  thrown by \<open>upsertSemverLabel\<close> whatever its status, 404 included.
\<close>

theorem label_404_handling:
  "(issues_removeLabel octokit owner repo issueNumber name (ext w) = (Inl e, x) \<and> is_404 e
      \<longrightarrow> removeLabelIfExists octokit owner repo issueNumber name w = (Inr (), w\<lparr>ext := x\<rparr>))
   \<and> (issues_removeLabel octokit owner repo issueNumber name (ext w) = (Inl e, x) \<and> \<not> is_404 e
      \<longrightarrow> removeLabelIfExists octokit owner repo issueNumber name w = (Inl e, w\<lparr>ext := x\<rparr>))
   \<and> (issues_removeLabel octokit owner repo issueNumber name (ext w) = (Inr (), x)
      \<longrightarrow> removeLabelIfExists octokit owner repo issueNumber name w = (Inr (), w\<lparr>ext := x\<rparr>))
   \<and> (issues_getLabel octokit owner repo name (ext w) = (Inl e, x) \<and> is_404 e
      \<longrightarrow> ensureLabelExists octokit owner repo name w
          = call (issues_createLabel octokit owner repo name (utf16 ''ededed'') (utf16 ''Semver required update''))
              (w\<lparr>ext := x\<rparr>))
   \<and> (issues_getLabel octokit owner repo name (ext w) = (Inl e, x) \<and> \<not> is_404 e
      \<longrightarrow> ensureLabelExists octokit owner repo name w = (Inl e, w\<lparr>ext := x\<rparr>))
   \<and> (issues_getLabel octokit owner repo name (ext w) = (Inr (), x)
      \<longrightarrow> ensureLabelExists octokit owner repo name w = (Inr (), w\<lparr>ext := x\<rparr>))
   \<and> (is_404 e \<longleftrightarrow> (\<exists>msg cd. e = ErrorObject msg (Some 404) cd))
   \<and> (fst (issues_listLabelsOnIssue octokit owner repo issueNumber (ext w)) = Inr existing
        \<and> removal_fails_only_404 octokit owner repo issueNumber
        \<and> lookup_fails_only_404 octokit owner repo newLabel
        \<and> (\<forall>x. fst (issues_createLabel octokit owner repo newLabel (utf16 ''ededed'')
                 (utf16 ''Semver required update'') x) = Inr ())
        \<and> (\<forall>x. fst (issues_addLabels octokit owner repo issueNumber [newLabel] x) = Inr ())
      \<longrightarrow> fst (upsertSemverLabel octokit owner repo issueNumber labelPrefix newLabel w) = Inr ())
   \<and> (issues_listLabelsOnIssue octokit owner repo issueNumber (ext w) = (Inl e, x)
      \<longrightarrow> upsertSemverLabel octokit owner repo issueNumber labelPrefix newLabel w =
            (Inl e, (emit (Info (utf16 ''Fetching existing labels for issue #'' @ String_number issueNumber
                       @ utf16 ''...'')) w)\<lparr>ext := x\<rparr>))
   \<and> (fst (issues_listLabelsOnIssue octokit owner repo issueNumber (ext w)) = Inr existing
        \<and> newLabel \<notin> set existing
        \<and> removal_fails_only_404 octokit owner repo issueNumber
        \<and> (\<forall>x. \<exists>e'. fst (issues_getLabel octokit owner repo newLabel x) = Inl e' \<and> is_404 e')
        \<and> (\<forall>x. fst (issues_createLabel octokit owner repo newLabel (utf16 ''ededed'')
                 (utf16 ''Semver required update'') x) = Inl e)
      \<longrightarrow> fst (upsertSemverLabel octokit owner repo issueNumber labelPrefix newLabel w) = Inl e)
   \<and> (fst (issues_listLabelsOnIssue octokit owner repo issueNumber (ext w)) = Inr existing
        \<and> newLabel \<notin> set existing
        \<and> removal_fails_only_404 octokit owner repo issueNumber
        \<and> lookup_fails_only_404 octokit owner repo newLabel
        \<and> (\<forall>x. fst (issues_createLabel octokit owner repo newLabel (utf16 ''ededed'')
                 (utf16 ''Semver required update'') x) = Inr ())
        \<and> (\<forall>x. fst (issues_addLabels octokit owner repo issueNumber [newLabel] x) = Inl e)
      \<longrightarrow> fst (upsertSemverLabel octokit owner repo issueNumber labelPrefix newLabel w) = Inl e)"
proof -
  have per_call:
    "(issues_removeLabel octokit owner repo issueNumber name (ext w) = (Inl e, x) \<and> is_404 e
      \<longrightarrow> removeLabelIfExists octokit owner repo issueNumber name w = (Inr (), w\<lparr>ext := x\<rparr>))
   \<and> (issues_removeLabel octokit owner repo issueNumber name (ext w) = (Inl e, x) \<and> \<not> is_404 e
      \<longrightarrow> removeLabelIfExists octokit owner repo issueNumber name w = (Inl e, w\<lparr>ext := x\<rparr>))
   \<and> (issues_removeLabel octokit owner repo issueNumber name (ext w) = (Inr (), x)
      \<longrightarrow> removeLabelIfExists octokit owner repo issueNumber name w = (Inr (), w\<lparr>ext := x\<rparr>))
   \<and> (issues_getLabel octokit owner repo name (ext w) = (Inl e, x) \<and> is_404 e
      \<longrightarrow> ensureLabelExists octokit owner repo name w
          = call (issues_createLabel octokit owner repo name (utf16 ''ededed'') (utf16 ''Semver required update''))
              (w\<lparr>ext := x\<rparr>))
   \<and> (issues_getLabel octokit owner repo name (ext w) = (Inl e, x) \<and> \<not> is_404 e
      \<longrightarrow> ensureLabelExists octokit owner repo name w = (Inl e, w\<lparr>ext := x\<rparr>))
   \<and> (issues_getLabel octokit owner repo name (ext w) = (Inr (), x)
      \<longrightarrow> ensureLabelExists octokit owner repo name w = (Inr (), w\<lparr>ext := x\<rparr>))
   \<and> (is_404 e \<longleftrightarrow> (\<exists>msg cd. e = ErrorObject msg (Some 404) cd))"
    by (simp add: removeLabelIfExists_def ensureLabelExists_def io_defs is_404_iff)
  have tolerant: "fst (issues_listLabelsOnIssue octokit owner repo issueNumber (ext w)) = Inr existing
        \<and> removal_fails_only_404 octokit owner repo issueNumber
        \<and> lookup_fails_only_404 octokit owner repo newLabel
        \<and> (\<forall>x. fst (issues_createLabel octokit owner repo newLabel (utf16 ''ededed'')
                 (utf16 ''Semver required update'') x) = Inr ())
        \<and> (\<forall>x. fst (issues_addLabels octokit owner repo issueNumber [newLabel] x) = Inr ())
      \<longrightarrow> fst (upsertSemverLabel octokit owner repo issueNumber labelPrefix newLabel w) = Inr ()"
    by (intro impI, elim conjE, rule upsertSemverLabel_tolerant; assumption)
  have listing: "issues_listLabelsOnIssue octokit owner repo issueNumber (ext w) = (Inl e, x)
      \<longrightarrow> upsertSemverLabel octokit owner repo issueNumber labelPrefix newLabel w =
            (Inl e, (emit (Info (utf16 ''Fetching existing labels for issue #'' @ String_number issueNumber
                       @ utf16 ''...'')) w)\<lparr>ext := x\<rparr>)"
    by (intro impI, rule upsertSemverLabel_listing_fails)
  have creating: "fst (issues_listLabelsOnIssue octokit owner repo issueNumber (ext w)) = Inr existing
        \<and> newLabel \<notin> set existing
        \<and> removal_fails_only_404 octokit owner repo issueNumber
        \<and> (\<forall>x. \<exists>e'. fst (issues_getLabel octokit owner repo newLabel x) = Inl e' \<and> is_404 e')
        \<and> (\<forall>x. fst (issues_createLabel octokit owner repo newLabel (utf16 ''ededed'')
                 (utf16 ''Semver required update'') x) = Inl e)
      \<longrightarrow> fst (upsertSemverLabel octokit owner repo issueNumber labelPrefix newLabel w) = Inl e"
    by (intro impI, elim conjE, rule upsertSemverLabel_creating_fails; assumption)
  have adding: "fst (issues_listLabelsOnIssue octokit owner repo issueNumber (ext w)) = Inr existing
        \<and> newLabel \<notin> set existing
        \<and> removal_fails_only_404 octokit owner repo issueNumber
        \<and> lookup_fails_only_404 octokit owner repo newLabel
        \<and> (\<forall>x. fst (issues_createLabel octokit owner repo newLabel (utf16 ''ededed'')
                 (utf16 ''Semver required update'') x) = Inr ())
        \<and> (\<forall>x. fst (issues_addLabels octokit owner repo issueNumber [newLabel] x) = Inl e)
      \<longrightarrow> fst (upsertSemverLabel octokit owner repo issueNumber labelPrefix newLabel w) = Inl e"
    by (intro impI, elim conjE, rule upsertSemverLabel_adding_fails; assumption)
  from tolerant listing creating adding
  have "(fst (issues_listLabelsOnIssue octokit owner repo issueNumber (ext w)) = Inr existing
        \<and> removal_fails_only_404 octokit owner repo issueNumber
        \<and> lookup_fails_only_404 octokit owner repo newLabel
        \<and> (\<forall>x. fst (issues_createLabel octokit owner repo newLabel (utf16 ''ededed'')
                 (utf16 ''Semver required update'') x) = Inr ())
        \<and> (\<forall>x. fst (issues_addLabels octokit owner repo issueNumber [newLabel] x) = Inr ())
      \<longrightarrow> fst (upsertSemverLabel octokit owner repo issueNumber labelPrefix newLabel w) = Inr ())
   \<and> (issues_listLabelsOnIssue octokit owner repo issueNumber (ext w) = (Inl e, x)
      \<longrightarrow> upsertSemverLabel octokit owner repo issueNumber labelPrefix newLabel w =
            (Inl e, (emit (Info (utf16 ''Fetching existing labels for issue #'' @ String_number issueNumber
                       @ utf16 ''...'')) w)\<lparr>ext := x\<rparr>))
   \<and> (fst (issues_listLabelsOnIssue octokit owner repo issueNumber (ext w)) = Inr existing
        \<and> newLabel \<notin> set existing
        \<and> removal_fails_only_404 octokit owner repo issueNumber
        \<and> (\<forall>x. \<exists>e'. fst (issues_getLabel octokit owner repo newLabel x) = Inl e' \<and> is_404 e')
        \<and> (\<forall>x. fst (issues_createLabel octokit owner repo newLabel (utf16 ''ededed'')
                 (utf16 ''Semver required update'') x) = Inl e)
      \<longrightarrow> fst (upsertSemverLabel octokit owner repo issueNumber labelPrefix newLabel w) = Inl e)
   \<and> (fst (issues_listLabelsOnIssue octokit owner repo issueNumber (ext w)) = Inr existing
        \<and> newLabel \<notin> set existing
        \<and> removal_fails_only_404 octokit owner repo issueNumber
        \<and> lookup_fails_only_404 octokit owner repo newLabel
        \<and> (\<forall>x. fst (issues_createLabel octokit owner repo newLabel (utf16 ''ededed'')
                 (utf16 ''Semver required update'') x) = Inr ())
        \<and> (\<forall>x. fst (issues_addLabels octokit owner repo issueNumber [newLabel] x) = Inl e)
      \<longrightarrow> fst (upsertSemverLabel octokit owner repo issueNumber labelPrefix newLabel w) = Inl e)"
    by (intro conjI)
  with per_call show ?thesis
    by (elim conjE, intro conjI) assumption+
qed

theorem listing_404_is_fatal_counterexample:
  "fst (upsertSemverLabel unknown_issue_octokit (utf16 ''o'') (utf16 ''r'') (Integer 7) (utf16 ''semver: '')
          (utf16 ''semver: patch'') \<lparr>trace = [], ext = empty_platform\<rparr>) = Inl not_found
   \<and> is_404 not_found"
  by (simp add: upsertSemverLabel_unfold unknown_issue_octokit_def not_found_def)

theorem label_404_handling_witness:
  "upsertSemverLabel stale_octokit (utf16 ''o'') (utf16 ''r'') (Integer 7) (utf16 ''semver: '')
      (utf16 ''semver: patch'')
      \<lparr>trace = [], ext = empty_platform\<lparr>issue_labels := [utf16 ''semver: major'', utf16 ''bug'']\<rparr>\<rparr>
     = (Inr (),
        \<lparr>trace = [Info (utf16 ''Fetching existing labels for issue #7...''),
                  Info (utf16 ''Found 2 existing labels: semver: major, bug''),
                  Info (utf16 ''Removing old label: semver: major''),
                  Info (utf16 ''Adding new label: semver: patch'')],
         ext = empty_platform
           \<lparr>issue_labels := [utf16 ''semver: major'', utf16 ''bug'', utf16 ''semver: patch''],
            repo_labels := [utf16 ''semver: patch''],
            calls := [ListLabelsOnIssue, RemoveLabel (utf16 ''semver: major''), GetLabel (utf16 ''semver: patch''),
                      CreateLabel (utf16 ''semver: patch'') (utf16 ''ededed'') (utf16 ''Semver required update''),
                      AddLabels [utf16 ''semver: patch'']]\<rparr>\<rparr>)
   \<and> removal_fails_only_404 stale_octokit (utf16 ''o'') (utf16 ''r'') (Integer 7)
   \<and> lookup_fails_only_404 stale_octokit (utf16 ''o'') (utf16 ''r'') (utf16 ''semver: patch'')
   \<and> is_404 not_found"
proof -
  let ?p = "empty_platform\<lparr>issue_labels := [utf16 ''semver: major'', utf16 ''bug'']\<rparr>"
  let ?w = "\<lparr>trace = [], ext = ?p\<rparr>"
  have n: "is_404 not_found"
    by (simp add: not_found_def)
  have r: "removal_fails_only_404 stale_octokit (utf16 ''o'') (utf16 ''r'') (Integer 7)"
    and l: "lookup_fails_only_404 stale_octokit (utf16 ''o'') (utf16 ''r'') (utf16 ''semver: patch'')"
    by (simp_all add: removal_fails_only_404_def lookup_fails_only_404_def stale_octokit_def n)
  have c: "\<forall>x. fst (issues_createLabel stale_octokit (utf16 ''o'') (utf16 ''r'') (utf16 ''semver: patch'')
      (utf16 ''ededed'') (utf16 ''Semver required update'') x) = Inr ()"
    and a: "\<forall>x. fst (issues_addLabels stale_octokit (utf16 ''o'') (utf16 ''r'') (Integer 7)
      [utf16 ''semver: patch''] x) = Inr ()"
    and ls: "fst (issues_listLabelsOnIssue stale_octokit (utf16 ''o'') (utf16 ''r'') (Integer 7) (ext ?w))
      = Inr [utf16 ''semver: major'', utf16 ''bug'']"
    by (simp_all add: stale_octokit_def reference_octokit_simps empty_platform_def)
  from label_404_handling [where octokit = stale_octokit and owner = "utf16 ''o''" and repo = "utf16 ''r''"
      and issueNumber = "Integer 7" and newLabel = "utf16 ''semver: patch''" and w = ?w
      and existing = "[utf16 ''semver: major'', utf16 ''bug'']" and labelPrefix = "utf16 ''semver: ''"]
    ls r l c a
  have ok: "fst (upsertSemverLabel stale_octokit (utf16 ''o'') (utf16 ''r'') (Integer 7) (utf16 ''semver: '')
      (utf16 ''semver: patch'') ?w) = Inr ()"
    by blast
  have tr: "snd (upsertSemverLabel stale_octokit (utf16 ''o'') (utf16 ''r'') (Integer 7) (utf16 ''semver: '')
      (utf16 ''semver: patch'') ?w) =
        \<lparr>trace = [Info (utf16 ''Fetching existing labels for issue #7...''),
                  Info (utf16 ''Found 2 existing labels: semver: major, bug''),
                  Info (utf16 ''Removing old label: semver: major''),
                  Info (utf16 ''Adding new label: semver: patch'')],
         ext = empty_platform
           \<lparr>issue_labels := [utf16 ''semver: major'', utf16 ''bug'', utf16 ''semver: patch''],
            repo_labels := [utf16 ''semver: patch''],
            calls := [ListLabelsOnIssue, RemoveLabel (utf16 ''semver: major''), GetLabel (utf16 ''semver: patch''),
                      CreateLabel (utf16 ''semver: patch'') (utf16 ''ededed'') (utf16 ''Semver required update''),
                      AddLabels [utf16 ''semver: patch'']]\<rparr>\<rparr>"
    by (simp add: upsertSemverLabel_unfold stale_octokit_def reference_octokit_simps empty_platform_def
        removeLabelIfExists_def ensureLabelExists_def io_defs emit_def received_def not_found_def
        String_nat_digit Set_add_def utf16_def Canonicalize_def)
  from ok tr r l n show ?thesis
    by (simp add: prod_eq_iff)
qed

end
